theory Spec2Isabelle
  imports Main
begin

section \<open>Node built-ins used by the modules\<close>

text \<open>
  The two modules under verification are \<^verbatim>\<open>src/modules/fsInput.js\<close> (directory scan,
  fingerprinting, loading) and \<^verbatim>\<open>src/modules/db.js\<close> (the SQLite table \<^verbatim>\<open>files\<close>).
  They call a handful of Node built-ins, modelled here from Node's documented behaviour on
  a POSIX host. Strings are byte lists; every character the built-ins look at
  (\<^verbatim>\<open>/\<close>, \<^verbatim>\<open>.\<close>, \<^verbatim>\<open>,\<close> and the backslash) is a single ASCII byte.
\<close>

datatype error =
    FilesystemError string  \<comment> \<open>a failed fs call; carries the path handed to it\<close>
  | RangeError              \<comment> \<open>\<^verbatim>\<open>String.prototype.repeat\<close> with a negative or infinite count\<close>
  | StoreError string       \<comment> \<open>the error SQLite hands to a callback, when it is passed on\<close>

text \<open>\<^verbatim>\<open>s.split(c)\<close> for a one-character separator: the empty string gives one empty piece.\<close>

fun js_split :: "char \<Rightarrow> string \<Rightarrow> string list" where
  "js_split c [] = [[]]"
| "js_split c (x # xs) =
     (if x = c then [] # js_split c xs
      else (case js_split c xs of [] \<Rightarrow> [[x]] | w # ws \<Rightarrow> (x # w) # ws))"

subsection \<open>\<^verbatim>\<open>path.posix.join\<close>\<close>

definition segments :: "string \<Rightarrow> string list" where
  "segments p = js_split CHR ''/'' p"

fun unsegments :: "string list \<Rightarrow> string" where
  "unsegments [] = []"
| "unsegments [x] = x"
| "unsegments (x # y # ys) = x @ ''/'' @ unsegments (y # ys)"

text \<open>
  One step of Node's \<^verbatim>\<open>normalizeString\<close>: empty and \<^verbatim>\<open>.\<close> segments are dropped, \<^verbatim>\<open>..\<close>
  removes the segment before it, or is kept when there is none to remove and the path is
  relative (\<open>allowAboveRoot\<close>).
\<close>

definition normalize_step :: "bool \<Rightarrow> string list \<Rightarrow> string \<Rightarrow> string list" where
  "normalize_step allowAboveRoot res seg =
     (if seg = [] \<or> seg = ''.'' then res
      else if seg = ''..'' then
        (if res \<noteq> [] \<and> last res \<noteq> ''..'' then butlast res
         else if allowAboveRoot then res @ [''..'']
         else res)
      else res @ [seg])"

definition normalizeString :: "bool \<Rightarrow> string \<Rightarrow> string list" where
  "normalizeString allowAboveRoot p = foldl (normalize_step allowAboveRoot) [] (segments p)"

definition isAbsolute :: "string \<Rightarrow> bool" where
  "isAbsolute p = (case p of [] \<Rightarrow> False | c # _ \<Rightarrow> c = CHR ''/'')"

definition posix_normalize :: "string \<Rightarrow> string" where
  "posix_normalize p =
     (if p = [] then ''.''
      else
        let trailingSeparator = (last p = CHR ''/'');
            res = normalizeString (\<not> isAbsolute p) p
        in if res = [] then
             (if isAbsolute p then ''/'' else if trailingSeparator then ''./'' else ''.'')
           else (if isAbsolute p then ''/'' else [])
                @ unsegments res
                @ (if trailingSeparator then ''/'' else []))"

text \<open>\<^verbatim>\<open>path.posix.join(a, b)\<close>: empty arguments are skipped, the rest is normalised.\<close>

definition posix_join :: "string \<Rightarrow> string \<Rightarrow> string" where
  "posix_join a b =
     (let joined = (if a = [] then b else if b = [] then a else a @ ''/'' @ b)
      in if joined = [] then ''.'' else posix_normalize joined)"

subsection \<open>\<^verbatim>\<open>path.extname\<close> and \<^verbatim>\<open>path.relative\<close> on a POSIX host\<close>

text \<open>The last component of a path, trailing separators ignored.\<close>

definition basename :: "string \<Rightarrow> string" where
  "basename p =
     rev (takeWhile (\<lambda>c. c \<noteq> CHR ''/'') (dropWhile (\<lambda>c. c = CHR ''/'') (rev p)))"

text \<open>
  \<^verbatim>\<open>path.extname\<close>: from the last dot of the last component to its end; empty when the
  component has no dot, when its only dot is its first character, and for \<^verbatim>\<open>..\<close>.
\<close>

definition posix_extname :: "string \<Rightarrow> string" where
  "posix_extname p =
     (let base = basename p;
          ext = rev (takeWhile (\<lambda>c. c \<noteq> CHR ''.'') (rev base));
          stem = take (length base - length ext - 1) base
      in if CHR ''.'' \<notin> set base \<or> stem = [] \<or> base = ''..'' then []
         else CHR ''.'' # ext)"

text \<open>
  \<^verbatim>\<open>path.posix.resolve\<close> of one path against the working directory \<open>cwd\<close> (an absolute
  path), as the list of segments after the root.
\<close>

definition resolve_segments :: "string \<Rightarrow> string \<Rightarrow> string list" where
  "resolve_segments cwd p =
     normalizeString False
       ((if isAbsolute p then p else if p = [] then cwd else cwd @ ''/'' @ p) @ ''/'')"

fun strip_common :: "string list \<Rightarrow> string list \<Rightarrow> string list \<times> string list" where
  "strip_common (x # xs) (y # ys) = (if x = y then strip_common xs ys else (x # xs, y # ys))"
| "strip_common xs ys = (xs, ys)"

text \<open>
  \<^verbatim>\<open>path.posix.relative(from, to)\<close>: both are resolved, their common leading segments are
  dropped, and the result climbs out of what is left of \<open>from\<close> and descends into what is
  left of \<open>to\<close>.
\<close>

definition posix_relative :: "string \<Rightarrow> string \<Rightarrow> string \<Rightarrow> string" where
  "posix_relative cwd from to =
     (if from = to then []
      else case strip_common (resolve_segments cwd from) (resolve_segments cwd to) of
             (up, down) \<Rightarrow> unsegments (replicate (length up) ''..'' @ down))"

section \<open>The file system\<close>

text \<open>
  The scanned tree is finite and has no cycles. A node is what \<^verbatim>\<open>fs.statSync\<close>,
  \<^verbatim>\<open>fs.readdirSync\<close> and \<^verbatim>\<open>fs.readFileSync\<close> find at a path: a regular file with its
  modification time and content, a directory with its modification time and its entries
  in listing order, or one of three faulty nodes. Modification times are whole
  milliseconds (\<^verbatim>\<open>mtimeMs\<close> may carry a fraction, which nothing here looks at).
\<close>

datatype fsnode =
    File int string                     \<comment> \<open>mtimeMs and content\<close>
  | Dir int "(string \<times> fsnode) list"     \<comment> \<open>mtimeMs and the entries \<^verbatim>\<open>readdirSync\<close> lists\<close>
  | NoRead int                          \<comment> \<open>a file that stats but cannot be read\<close>
  | NoList int                          \<comment> \<open>a directory that stats but cannot be listed\<close>
  | NoStat                              \<comment> \<open>a listed name \<^verbatim>\<open>statSync\<close> fails on\<close>

record stats =
  isDirectory :: bool
  mtimeMs :: int

fun stat_node :: "fsnode \<Rightarrow> stats option" where
  "stat_node (File m c) = Some \<lparr>isDirectory = False, mtimeMs = m\<rparr>"
| "stat_node (Dir m es) = Some \<lparr>isDirectory = True, mtimeMs = m\<rparr>"
| "stat_node (NoRead m) = Some \<lparr>isDirectory = False, mtimeMs = m\<rparr>"
| "stat_node (NoList m) = Some \<lparr>isDirectory = True, mtimeMs = m\<rparr>"
| "stat_node NoStat = None"

text \<open>
  A file system is a tree mounted at a path. Every node beneath the mount point is
  reached at the path that \<^verbatim>\<open>path.posix.join\<close> builds from its directory's path and its
  name: \<open>walk\<close> lists all of them, the directory before its entries. A call that is
  given a path finds the first node listed at exactly that path, and fails on any other
  path.
\<close>

record filesystem =
  mount :: string
  tree :: fsnode

fun walk :: "string \<Rightarrow> fsnode \<Rightarrow> (string \<times> fsnode) list"
  and walk_entries :: "string \<Rightarrow> (string \<times> fsnode) list \<Rightarrow> (string \<times> fsnode) list" where
  "walk p (Dir m es) = (p, Dir m es) # walk_entries p es"
| "walk p (File m c) = [(p, File m c)]"
| "walk p (NoRead m) = [(p, NoRead m)]"
| "walk p (NoList m) = [(p, NoList m)]"
| "walk p NoStat = [(p, NoStat)]"
| "walk_entries p [] = []"
| "walk_entries p ((name, n) # es) = walk (posix_join p name) n @ walk_entries p es"

definition lookup :: "filesystem \<Rightarrow> string \<Rightarrow> fsnode option" where
  "lookup fs p = map_of (walk (mount fs) (tree fs)) p"

definition statSync :: "filesystem \<Rightarrow> string \<Rightarrow> error + stats" where
  "statSync fs p =
     (case lookup fs p of
        None \<Rightarrow> Inl (FilesystemError p)
      | Some n \<Rightarrow> (case stat_node n of None \<Rightarrow> Inl (FilesystemError p) | Some st \<Rightarrow> Inr st))"

definition readFileSync :: "filesystem \<Rightarrow> string \<Rightarrow> error + string" where
  "readFileSync fs p =
     (case lookup fs p of
        Some (File m c) \<Rightarrow> Inr c
      | _ \<Rightarrow> Inl (FilesystemError p))"

section \<open>\<^verbatim>\<open>fsInput.js\<close>\<close>

text \<open>
  What the module takes from outside: the two environment variables it splits at load
  time, the modules \<^verbatim>\<open>./tokenHelper\<close>, \<^verbatim>\<open>./hashing\<close> and \<^verbatim>\<open>./autopilotConfig\<close> (not part of
  the sources at hand, so \<open>countTokens\<close>, \<open>hashFile\<close> and
  \<open>getCodeBaseAutopilotDirectory\<close> are parameters), and the host's \<^verbatim>\<open>path.relative\<close> and
  \<^verbatim>\<open>path.extname\<close>, which Node dispatches on the platform (\<^verbatim>\<open>path.posix.join\<close> is not
  dispatched).
\<close>

record env =
  IGNORE_LIST :: string
  FILE_EXTENSIONS_TO_PROCESS :: string
  countTokens :: "string \<Rightarrow> nat"
  hashFile :: "string \<Rightarrow> string"
  path_relative :: "string \<Rightarrow> string \<Rightarrow> string"
  path_extname :: "string \<Rightarrow> string"
  getCodeBaseAutopilotDirectory :: "string \<Rightarrow> string"

definition ignoreList :: "env \<Rightarrow> string list" where
  "ignoreList e = js_split CHR '','' (IGNORE_LIST e)"

definition fileExtensionsToProcess :: "env \<Rightarrow> string list" where
  "fileExtensionsToProcess e = js_split CHR '','' (FILE_EXTENSIONS_TO_PROCESS e)"

text \<open>The module's two counters (\<^verbatim>\<open>let totalFiles = 0; let completedFiles = 0;\<close>).\<close>

record progress =
  totalFiles :: nat
  completedFiles :: nat

text \<open>
  \<^verbatim>\<open>getFilePaths(dir)\<close>. The node found at \<open>dir\<close> is passed along with the path, and the node
  of an entry stands for what \<^verbatim>\<open>statSync\<close> and the recursive call find at the joined
  path. \<open>scanEntries\<close> is the \<^verbatim>\<open>for (const file of files)\<close> loop with \<open>projectFiles\<close> as
  its accumulator. An exception leaves the counters as they were when it was thrown.
  Console output is not modelled.
\<close>

fun getFilePaths :: "env \<Rightarrow> fsnode \<Rightarrow> string \<Rightarrow> progress \<Rightarrow> (error + string list) \<times> progress"
  and scanEntries :: "env \<Rightarrow> string \<Rightarrow> (string \<times> fsnode) list \<Rightarrow> string list \<Rightarrow> progress
                        \<Rightarrow> (error + string list) \<times> progress" where
  "getFilePaths e (Dir m files) dir s =
     (case scanEntries e dir files [] s of
        (Inl err, s') \<Rightarrow> (Inl err, s')
      | (Inr projectFiles, s') \<Rightarrow>
          (Inr projectFiles, s'\<lparr>totalFiles := totalFiles s' + length projectFiles\<rparr>))"
| "getFilePaths e (File m c) dir s = (Inl (FilesystemError dir), s)"
| "getFilePaths e (NoRead m) dir s = (Inl (FilesystemError dir), s)"
| "getFilePaths e (NoList m) dir s = (Inl (FilesystemError dir), s)"
| "getFilePaths e NoStat dir s = (Inl (FilesystemError dir), s)"
| "scanEntries e dir [] projectFiles s = (Inr projectFiles, s)"
| "scanEntries e dir ((file, n) # files) projectFiles s =
     (let filePath = posix_join dir file in
      case stat_node n of
        None \<Rightarrow> (Inl (FilesystemError filePath), s)
      | Some st \<Rightarrow>
          if isDirectory st \<and> file \<notin> set (ignoreList e) then
            (case getFilePaths e n filePath s of
               (Inl err, s') \<Rightarrow> (Inl err, s')
             | (Inr sub, s') \<Rightarrow> scanEntries e dir files (projectFiles @ sub) s')
          else if path_extname e filePath \<in> set (fileExtensionsToProcess e) then
            scanEntries e dir files (projectFiles @ [filePath]) s
          else scanEntries e dir files projectFiles s)"

text \<open>
  The objects the module passes around. \<^verbatim>\<open>parseFileContent\<close> returns the five fields of
  \<open>file_record\<close>; \<^verbatim>\<open>getFiles\<close> takes objects with \<^verbatim>\<open>filePath\<close> and \<^verbatim>\<open>exists\<close> and sets
  \<^verbatim>\<open>code\<close> on them (\<open>None\<close>: the property is not set). The \<^verbatim>\<open>exists\<close> flag is only tested for
  truthiness, so it is kept as a JavaScript value (\<open>JObject\<close>: any object, array or
  function).
\<close>

record path_object =
  filePath :: string

record file_record = path_object +
  fileContent :: string
  fileTokensCount :: nat
  fileHash :: string
  fileTimestamp :: int

datatype jsval = JUndefined | JNull | JBool bool | JNum int | JStr string | JObject

fun truthy :: "jsval \<Rightarrow> bool" where
  "truthy JUndefined = False"
| "truthy JNull = False"
| "truthy (JBool b) = b"
| "truthy (JNum n) = (n \<noteq> 0)"
| "truthy (JStr s) = (s \<noteq> [])"
| "truthy JObject = True"

record file_object = path_object +
  exists :: jsval
  code :: "string option"

text \<open>\<^verbatim>\<open>.replace(/\\/g, '/')\<close>: every backslash becomes a forward slash.\<close>

definition backslash :: char where
  "backslash = CHR 0x5C"

definition replace_backslashes :: "string \<Rightarrow> string" where
  "replace_backslashes p = map (\<lambda>c. if c = backslash then CHR ''/'' else c) p"

definition parseFileContent :: "env \<Rightarrow> filesystem \<Rightarrow> string \<Rightarrow> string \<Rightarrow> string \<Rightarrow> error + file_record" where
  "parseFileContent e fs dir filePathFull content =
     (let tokens = countTokens e content;
          h = hashFile e content;
          relativePath = replace_backslashes (path_relative e dir filePathFull)
      in case statSync fs filePathFull of
           Inl err \<Rightarrow> Inl err
         | Inr st \<Rightarrow>
             Inr \<lparr>filePath = relativePath, fileContent = content, fileTokensCount = tokens,
                  fileHash = h, fileTimestamp = mtimeMs st\<rparr>)"

text \<open>
  \<^verbatim>\<open>updateProgressBar()\<close> prints only; what matters to its caller is whether one of its two
  \<^verbatim>\<open>repeat\<close> calls throws. \<^verbatim>\<open>0 / 0\<close> is \<^verbatim>\<open>NaN\<close>, which \<^verbatim>\<open>repeat\<close> reads as 0; a positive
  count over 0 is \<^verbatim>\<open>Infinity\<close>; otherwise the bar is \<open>progress div 2\<close> wide and
  \<^verbatim>\<open>' '.repeat(50 - width)\<close> throws when that is more than 50. (The quotient is computed
  exactly here; up to \<open>completedFiles \<le> totalFiles\<close> the double arithmetic of the source
  agrees with it on whether the bar fits.)
\<close>

definition updateProgressBar :: "progress \<Rightarrow> error option" where
  "updateProgressBar s =
     (if totalFiles s = 0 then (if completedFiles s = 0 then None else Some RangeError)
      else
        let progressPercent = (completedFiles s * 100) div totalFiles s;
            progressBarWidth = progressPercent div 2
        in if 50 < progressBarWidth then Some RangeError else None)"

text \<open>The \<^verbatim>\<open>for (const filePath of filePaths)\<close> loop of \<^verbatim>\<open>loadFiles\<close>, with \<open>files\<close> as accumulator.\<close>

fun loadLoop :: "env \<Rightarrow> filesystem \<Rightarrow> string \<Rightarrow> string list \<Rightarrow> file_record list \<Rightarrow> progress
                   \<Rightarrow> (error + file_record list) \<times> progress" where
  "loadLoop e fs dir [] files s = (Inr files, s)"
| "loadLoop e fs dir (p # filePaths) files s =
     (case readFileSync fs p of
        Inl err \<Rightarrow> (Inl err, s)
      | Inr content \<Rightarrow>
          if content = [] then loadLoop e fs dir filePaths files s
          else
            (case parseFileContent e fs dir p content of
               Inl err \<Rightarrow> (Inl err, s)
             | Inr file \<Rightarrow>
                 let s' = s\<lparr>completedFiles := completedFiles s + 1\<rparr> in
                 (case updateProgressBar s' of
                    Some err \<Rightarrow> (Inl err, s')
                  | None \<Rightarrow> loadLoop e fs dir filePaths (files @ [file]) s')))"

text \<open>\<^verbatim>\<open>loadFiles(dir)\<close>: the scan of the node found at \<open>dir\<close>, then the loop.\<close>

definition loadFiles :: "env \<Rightarrow> filesystem \<Rightarrow> string \<Rightarrow> progress \<Rightarrow> (error + file_record list) \<times> progress" where
  "loadFiles e fs dir s =
     (case lookup fs dir of
        None \<Rightarrow> (Inl (FilesystemError dir), s)
      | Some n \<Rightarrow>
          (case getFilePaths e n dir s of
             (Inl err, s') \<Rightarrow> (Inl err, s')
           | (Inr filePaths, s') \<Rightarrow> loadLoop e fs dir filePaths [] s'))"

text \<open>
  \<^verbatim>\<open>getFiles(codeBaseDirectory, files)\<close>. Besides the result the model returns the paths
  handed to \<^verbatim>\<open>fs.readFileSync\<close>, in order, so that "without reading the file system" can be
  stated. The source sets \<^verbatim>\<open>code\<close> on the object it was given and pushes that same object.
\<close>

fun getFilesLoop :: "filesystem \<Rightarrow> string \<Rightarrow> file_object list \<Rightarrow> file_object list \<Rightarrow> string list
                       \<Rightarrow> (error + file_object list) \<times> string list" where
  "getFilesLoop fs codeBaseDirectory [] retFiles reads = (Inr retFiles, reads)"
| "getFilesLoop fs codeBaseDirectory (file # files) retFiles reads =
     (let filePathRelative = filePath file;
          filePathFull = posix_join codeBaseDirectory filePathRelative
      in if truthy (exists file) then
           (case readFileSync fs filePathFull of
              Inl err \<Rightarrow> (Inl err, reads @ [filePathFull])
            | Inr content \<Rightarrow>
                getFilesLoop fs codeBaseDirectory files
                  (retFiles @ [file\<lparr>code := Some content\<rparr>]) (reads @ [filePathFull]))
         else
           getFilesLoop fs codeBaseDirectory files
             (retFiles @ [file\<lparr>code := Some ''// This is a new file''\<rparr>]) reads)"

definition getFiles :: "filesystem \<Rightarrow> string \<Rightarrow> file_object list
                          \<Rightarrow> (error + file_object list) \<times> string list" where
  "getFiles fs codeBaseDirectory files = getFilesLoop fs codeBaseDirectory files [] []"

section \<open>\<^verbatim>\<open>db.js\<close>\<close>

text \<open>
  The table \<^verbatim>\<open>files\<close> has \<^verbatim>\<open>path\<close> as its primary key. \<^verbatim>\<open>getDBFiles\<close> selects the three columns
  of \<open>projection\<close>; a full row extends it by the other four.
\<close>

record projection =
  path :: string
  hash :: string
  timestamp :: int

record file_row = projection +
  tokensCount :: nat
  summary :: string
  summaryTokensCount :: nat
  dependenciesLibs :: string

text \<open>What the callbacks and \<^verbatim>\<open>getDB\<close> print, by line; the error lines go to \<^verbatim>\<open>console.error\<close>.\<close>

datatype console_line =
    Connected string          \<comment> \<open>\<^verbatim>\<open>Connected to SQLite database: ...\<close>\<close>
  | TableCreated              \<comment> \<open>\<^verbatim>\<open>The "files" table has been created successfully.\<close>\<close>
  | TableError string         \<comment> \<open>\<^verbatim>\<open>Error creating "files" table:\<close> and the error\<close>
  | FileUpserted string       \<comment> \<open>\<^verbatim>\<open>File ... inserted/updated successfully in the "files" table.\<close>\<close>
  | UpsertError string        \<comment> \<open>\<^verbatim>\<open>Error inserting/updating file:\<close> and the error\<close>
  | FileDeleted string        \<comment> \<open>\<^verbatim>\<open>File ... deleted successfully from the "files" table.\<close>\<close>
  | DeleteError string        \<comment> \<open>\<^verbatim>\<open>Error deleting file:\<close> and the error\<close>
  | Retrieved "projection list"  \<comment> \<open>\<^verbatim>\<open>Retrieved files from the "files" table:\<close> and the rows\<close>

fun on_console_error :: "console_line \<Rightarrow> bool" where
  "on_console_error (TableError m) = True"
| "on_console_error (UpsertError m) = True"
| "on_console_error (DeleteError m) = True"
| "on_console_error _ = False"

text \<open>
  The state the module works on: per database file the rows of \<^verbatim>\<open>files\<close> in rowid order,
  the console, and the \<^verbatim>\<open>'error'\<close> events emitted on handles. Whether SQLite opens a file
  and carries a statement out is up to the world outside, so every function takes these
  outcomes as arguments: \<open>None\<close> when the step succeeds, the error otherwise.

  \<^verbatim>\<open>new sqlite3.Database(dbFilePath)\<close> is given no callback, and the module attaches no
  listener to the handle. When the file cannot be opened, sqlite3 emits \<^verbatim>\<open>'error'\<close> on the
  handle (which Node, finding no listener, raises as an uncaught exception after the
  function that made the handle has returned) and never runs the statements queued on
  it, so none of their callbacks is called. On an open handle the queued statements run
  in order; a failed statement leaves the table as it was and hands its error to its
  callback. The callbacks run after the calling function has returned; the model records
  what they print and returns what the function returned.
\<close>

record database =
  rows :: "string \<Rightarrow> file_row list"
  console :: "console_line list"
  unhandled :: "string list"    \<comment> \<open>the \<^verbatim>\<open>'error'\<close> events no listener took\<close>

text \<open>A handle: the file it is on and whether the open succeeded.\<close>

record connection =
  filename :: string
  isOpen :: bool

definition DB_FILE_NAME :: string where
  "DB_FILE_NAME = ''autopilot.db''"

definition getDBFilePath :: "env \<Rightarrow> string \<Rightarrow> string" where
  \<comment> \<open>\<^verbatim>\<open>path.join\<close>, which on a POSIX host is \<^verbatim>\<open>path.posix.join\<close>\<close>
  "getDBFilePath e codeBaseDirectory =
     posix_join (getCodeBaseAutopilotDirectory e codeBaseDirectory) DB_FILE_NAME"

text \<open>
  \<^verbatim>\<open>createFilesTable(db)\<close>: \<^verbatim>\<open>CREATE TABLE IF NOT EXISTS\<close> keeps the rows of a table that
  exists; its callback prints one line, if it is called at all.
\<close>

definition createFilesTable :: "connection \<Rightarrow> string option \<Rightarrow> database \<Rightarrow> database" where
  "createFilesTable conn outcome db =
     (if isOpen conn then
        db\<lparr>console := console db @
             [case outcome of None \<Rightarrow> TableCreated | Some err \<Rightarrow> TableError err]\<rparr>
      else db)"

text \<open>
  \<^verbatim>\<open>getDB(codeBaseDirectory)\<close> returns the handle. \<open>opened\<close> is the outcome of the open and
  \<open>created\<close> that of the \<^verbatim>\<open>CREATE TABLE\<close> it queues. Its \<^verbatim>\<open>console.log\<close> runs before either is
  known, so the line \<^verbatim>\<open>Connected to SQLite database\<close> is printed in every case.
\<close>

definition getDB ::
  "env \<Rightarrow> string option \<Rightarrow> string option \<Rightarrow> string \<Rightarrow> database \<Rightarrow> connection \<times> database" where
  "getDB e opened created codeBaseDirectory db =
     (let dbFilePath = getDBFilePath e codeBaseDirectory;
          conn = \<lparr>filename = dbFilePath, isOpen = (opened = None)\<rparr>;
          db1 = db\<lparr>console := console db @ [Connected dbFilePath]\<rparr>;
          db2 = (case opened of
                   None \<Rightarrow> db1
                 | Some err \<Rightarrow> db1\<lparr>unhandled := unhandled db1 @ [err]\<rparr>)
      in (conn, createFilesTable conn created db2))"

text \<open>
  \<^verbatim>\<open>INSERT OR REPLACE INTO files (...) VALUES (?, ?, ?, ?, ?, ?, ?)\<close>: the row with the new
  row's primary key, if there is one, is deleted and the new row is inserted.
\<close>

definition insert_or_replace :: "file_row \<Rightarrow> file_row list \<Rightarrow> file_row list" where
  "insert_or_replace r table = filter (\<lambda>old. path old \<noteq> path r) table @ [r]"

text \<open>
  \<^verbatim>\<open>insertOrUpdateFile(codeBaseDirectory, file, summary, dependenciesLibs)\<close>. \<open>opened\<close> and
  \<open>created\<close> are the outcomes of \<^verbatim>\<open>getDB\<close>, \<open>outcome\<close> is that of the \<^verbatim>\<open>INSERT\<close>. On a handle
  that did not open the \<^verbatim>\<open>INSERT\<close> never runs and its callback prints nothing. The first
  component is what the caller gets: the function has no \<^verbatim>\<open>return\<close> and no \<^verbatim>\<open>throw\<close>, so it
  is \<open>Inr ()\<close> on every path.
\<close>

definition insertOrUpdateFile ::
  "env \<Rightarrow> string option \<Rightarrow> string option \<Rightarrow> string option \<Rightarrow> string \<Rightarrow> file_record \<Rightarrow> string
     \<Rightarrow> string \<Rightarrow> database \<Rightarrow> (error + unit) \<times> database" where
  "insertOrUpdateFile e opened created outcome codeBaseDirectory file summ deps db0 =
     (case getDB e opened created codeBaseDirectory db0 of
        (conn, db) \<Rightarrow>
          let summaryTokens = countTokens e summ;
              row = \<lparr>path = filePath file, hash = fileHash file,
                     timestamp = fileTimestamp file, tokensCount = fileTokensCount file,
                     summary = summ, summaryTokensCount = summaryTokens,
                     dependenciesLibs = deps\<rparr>
          in if \<not> isOpen conn then (Inr (), db)
             else
               (case outcome of
                  Some err \<Rightarrow> (Inr (), db\<lparr>console := console db @ [UpsertError err]\<rparr>)
                | None \<Rightarrow>
                    (Inr (),
                     db\<lparr>rows := (rows db)(filename conn :=
                                    insert_or_replace row (rows db (filename conn))),
                        console := console db @ [FileUpserted (filePath file)]\<rparr>)))"

text \<open>\<^verbatim>\<open>deleteFile(codeBaseDirectory, filePath)\<close>: \<^verbatim>\<open>DELETE FROM files WHERE path = ?\<close>.\<close>

definition deleteFile ::
  "env \<Rightarrow> string option \<Rightarrow> string option \<Rightarrow> string option \<Rightarrow> string \<Rightarrow> string \<Rightarrow> database
     \<Rightarrow> (error + unit) \<times> database" where
  "deleteFile e opened created outcome codeBaseDirectory p db0 =
     (case getDB e opened created codeBaseDirectory db0 of
        (conn, db) \<Rightarrow>
          if \<not> isOpen conn then (Inr (), db)
          else
            (case outcome of
               Some err \<Rightarrow> (Inr (), db\<lparr>console := console db @ [DeleteError err]\<rparr>)
             | None \<Rightarrow>
                 (Inr (),
                  db\<lparr>rows := (rows db)(filename conn :=
                                 filter (\<lambda>r. path r \<noteq> p) (rows db (filename conn))),
                     console := console db @ [FileDeleted p]\<rparr>)))"

text \<open>
  \<^verbatim>\<open>getDBFiles(codeBaseDirectory)\<close>: \<^verbatim>\<open>SELECT path, hash, timestamp FROM files\<close>. This one
  rejects its promise with the error of a failed statement. On a handle that did not
  open the callback of \<^verbatim>\<open>db.all\<close> is never called and the promise is never settled: the
  result is \<open>None\<close>.
\<close>

definition getDBFiles ::
  "env \<Rightarrow> string option \<Rightarrow> string option \<Rightarrow> string option \<Rightarrow> string \<Rightarrow> database
     \<Rightarrow> (error + projection list) option \<times> database" where
  "getDBFiles e opened created outcome codeBaseDirectory db0 =
     (case getDB e opened created codeBaseDirectory db0 of
        (conn, db) \<Rightarrow>
          if \<not> isOpen conn then (None, db)
          else
            (case outcome of
               Some err \<Rightarrow> (Some (Inl (StoreError err)), db)
             | None \<Rightarrow>
                 let files = map projection.truncate (rows db (filename conn))
                 in (Some (Inr files), db\<lparr>console := console db @ [Retrieved files]\<rparr>)))"

section \<open>The Reconciler\<close>

text \<open>The change-set: the paths of each of the four classes.\<close>

record change_set =
  added :: "string list"
  modified :: "string list"
  unchanged :: "string list"
  removed :: "string list"

text \<open>
  Modelled from the spec: the key-indexed lookup over the manifest projection of section
  4.4 (the Reconciler is not in the two modules at hand). It gives the hash stored for a
  path.
\<close>

definition stored_hash :: "projection list \<Rightarrow> string \<Rightarrow> string option" where
  "stored_hash manifest = map_of (map (\<lambda>m. (path m, hash m)) manifest)"

text \<open>
  Modelled from the spec: the Reconciler, the function that diffs the records of
  \<^verbatim>\<open>loadFiles\<close> against the rows of \<^verbatim>\<open>getDBFiles\<close>, is not in the two modules at hand, so
  \<open>reconcile\<close> follows section 4.4 of the specification word by word. Added: path in the
  live set, absent from the manifest. Modified: path in both, the hash differs from the
  manifest's stored hash. Unchanged: path in both with identical hash. Removed: path in
  the manifest, absent from the live set. The timestamp is not consulted.
\<close>

definition reconcile :: "file_record list \<Rightarrow> projection list \<Rightarrow> change_set" where
  "reconcile live manifest =
     \<lparr>added = [filePath f. f \<leftarrow> live, stored_hash manifest (filePath f) = None],
      modified = [filePath f. f \<leftarrow> live,
                   (case stored_hash manifest (filePath f) of
                      None \<Rightarrow> False | Some h \<Rightarrow> h \<noteq> fileHash f)],
      unchanged = [filePath f. f \<leftarrow> live,
                    (case stored_hash manifest (filePath f) of
                       None \<Rightarrow> False | Some h \<Rightarrow> h = fileHash f)],
      removed = [path m. m \<leftarrow> manifest, path m \<notin> set (map filePath live)]\<rparr>"

text \<open>In how many of the four classes a path occurs.\<close>

definition classes_of :: "change_set \<Rightarrow> string \<Rightarrow> nat" where
  "classes_of c p =
     length (filter (\<lambda>cls. p \<in> set cls) [added c, modified c, unchanged c, removed c])"

section \<open>Notions used to state the properties\<close>

text \<open>
  The calls to \<^verbatim>\<open>fs.readdirSync\<close> and \<^verbatim>\<open>fs.statSync\<close> that a scan of a directory makes when
  none of them throws, in the order it makes them, each with the path it is given and
  the node found there. A scan lists the directory it is called on, stats every entry,
  and descends into the entries that are directories and not on the ignore list.
\<close>

datatype fs_call = ListCall string fsnode | StatCall string fsnode

fun call_path :: "fs_call \<Rightarrow> string" where
  "call_path (ListCall p n) = p"
| "call_path (StatCall p n) = p"

fun is_directory :: "fsnode \<Rightarrow> bool" where
  "is_directory (Dir m es) = True"
| "is_directory (NoList m) = True"
| "is_directory _ = False"

fun cannot :: "fs_call \<Rightarrow> bool" where
  "cannot (ListCall p (Dir m es)) = False"
| "cannot (ListCall p _) = True"
| "cannot (StatCall p NoStat) = True"
| "cannot (StatCall p _) = False"

fun scan_calls :: "env \<Rightarrow> fsnode \<Rightarrow> string \<Rightarrow> fs_call list"
  and entry_calls :: "env \<Rightarrow> string \<Rightarrow> (string \<times> fsnode) list \<Rightarrow> fs_call list" where
  "scan_calls e (Dir m files) dir = ListCall dir (Dir m files) # entry_calls e dir files"
| "scan_calls e (File m c) dir = [ListCall dir (File m c)]"
| "scan_calls e (NoRead m) dir = [ListCall dir (NoRead m)]"
| "scan_calls e (NoList m) dir = [ListCall dir (NoList m)]"
| "scan_calls e NoStat dir = [ListCall dir NoStat]"
| "entry_calls e dir [] = []"
| "entry_calls e dir ((file, n) # files) =
     StatCall (posix_join dir file) n
       # (if is_directory n \<and> file \<notin> set (ignoreList e)
          then scan_calls e n (posix_join dir file) else [])
       @ entry_calls e dir files"

text \<open>
  The path of the first call that cannot be carried out, and the error a result stands
  for.
\<close>

definition first_fault :: "fs_call list \<Rightarrow> string option" where
  "first_fault calls = map_option call_path (find cannot calls)"

fun thrown :: "error + 'a \<Rightarrow> error option" where
  "thrown (Inl err) = Some err"
| "thrown (Inr v) = None"

text \<open>
  A name as \<^verbatim>\<open>readdirSync\<close> lists it: not empty, without a separator, and neither \<^verbatim>\<open>.\<close> nor
  \<^verbatim>\<open>..\<close>. The path of what is reached from \<open>dir\<close> through a chain of names is built by
  \<^verbatim>\<open>path.posix.join\<close>, one name at a time, as the scan builds it.
\<close>

definition entry_name :: "string \<Rightarrow> bool" where
  "entry_name n = (n \<noteq> [] \<and> CHR ''/'' \<notin> set n \<and> n \<noteq> ''.'' \<and> n \<noteq> ''..'')"

definition beneath :: "string \<Rightarrow> string list \<Rightarrow> string" where
  "beneath dir names = foldl posix_join dir names"

text \<open>A tree in which every entry carries such a name.\<close>

fun well_named :: "fsnode \<Rightarrow> bool"
  and well_named_entries :: "(string \<times> fsnode) list \<Rightarrow> bool" where
  "well_named (Dir m es) = well_named_entries es"
| "well_named (File m c) = True"
| "well_named (NoRead m) = True"
| "well_named (NoList m) = True"
| "well_named NoStat = True"
| "well_named_entries [] = True"
| "well_named_entries ((name, n) # es) = (entry_name name \<and> well_named n \<and> well_named_entries es)"

text \<open>
  A path the scan may return for \<open>dir\<close>: reached through a chain of names of which all but
  the last are names of directories the scan went into, so none of them is on the ignore
  list.
\<close>

definition reachable :: "env \<Rightarrow> string \<Rightarrow> string \<Rightarrow> bool" where
  "reachable e dir p =
     (\<exists>names. names \<noteq> [] \<and> p = beneath dir names
        \<and> (\<forall>x\<in>set names. entry_name x)
        \<and> (\<forall>x\<in>set (butlast names). x \<notin> set (ignoreList e)))"

text \<open>
  The segments that survive normalisation are neither empty nor \<^verbatim>\<open>.\<close>; and the path that
  \<^verbatim>\<open>path.posix.resolve\<close> normalises: the path itself when it is absolute, else the working
  directory followed by it.
\<close>

definition kept :: "string \<Rightarrow> bool" where
  "kept x = (x \<noteq> [] \<and> x \<noteq> ''.'')"

definition rooted :: "string \<Rightarrow> string \<Rightarrow> string" where
  "rooted cwd p = (if isAbsolute p then p else if p = [] then cwd else cwd @ ''/'' @ p)"

text \<open>The record \<^verbatim>\<open>loadFiles\<close> builds for a path: the file is read, then parsed.\<close>

definition load_one :: "env \<Rightarrow> filesystem \<Rightarrow> string \<Rightarrow> string \<Rightarrow> error + file_record" where
  "load_one e fs dir p =
     (case readFileSync fs p of
        Inl err \<Rightarrow> Inl err
      | Inr content \<Rightarrow> parseFileContent e fs dir p content)"

text \<open>What \<^verbatim>\<open>getFiles\<close> sets \<^verbatim>\<open>code\<close> to, when the read (if there is one) succeeds.\<close>

definition with_code :: "filesystem \<Rightarrow> string \<Rightarrow> file_object \<Rightarrow> file_object" where
  "with_code fs codeBaseDirectory file =
     file\<lparr>code :=
       (if truthy (exists file) then
          (case readFileSync fs (posix_join codeBaseDirectory (filePath file)) of
             Inr content \<Rightarrow> Some content | Inl err \<Rightarrow> None)
        else Some ''// This is a new file'')\<rparr>"

subsection \<open>A sample project\<close>

text \<open>
  A POSIX host with working directory \<^verbatim>\<open>/home/dev\<close>, token counts by length and the
  reversed content as hash; a project at \<^verbatim>\<open>/proj\<close> with two sources, a text file, an empty
  source, an ignored \<^verbatim>\<open>node_modules\<close> and a nested directory.
\<close>

definition sample_env :: env where
  "sample_env =
     \<lparr>IGNORE_LIST = ''node_modules,.git'', FILE_EXTENSIONS_TO_PROCESS = ''.js,.ts'',
      countTokens = length, hashFile = rev,
      path_relative = posix_relative ''/home/dev'', path_extname = posix_extname,
      getCodeBaseAutopilotDirectory = (\<lambda>d. posix_join d ''.autopilot'')\<rparr>"

definition sample_tree :: fsnode where
  "sample_tree =
     Dir 10
       [(''a.js'', File 11 ''x''),
        (''notes.txt'', File 12 ''y''),
        (''node_modules'', Dir 13 [(''c.js'', File 14 ''z'')]),
        (''src'', Dir 15 [(''empty.ts'', File 16 []), (''main.ts'', File 17 ''hello'')])]"

definition sample_fs :: filesystem where
  "sample_fs = \<lparr>mount = ''/proj'', tree = sample_tree\<rparr>"

text \<open>
  The same project with a directory that cannot be listed, and one in which a directory
  named \<^verbatim>\<open>vendor.js\<close> is on the ignore list.
\<close>

definition locked_tree :: fsnode where
  "locked_tree =
     Dir 10
       [(''a.js'', File 11 ''x''),
        (''src'', Dir 15 [(''locked'', NoList 16), (''main.ts'', File 17 ''hello'')])]"

definition vendor_env :: env where
  "vendor_env =
     \<lparr>IGNORE_LIST = ''node_modules,vendor.js'', FILE_EXTENSIONS_TO_PROCESS = ''.js'',
      countTokens = length, hashFile = rev,
      path_relative = posix_relative ''/home/dev'', path_extname = posix_extname,
      getCodeBaseAutopilotDirectory = (\<lambda>d. posix_join d ''.autopilot'')\<rparr>"

definition vendor_tree :: fsnode where
  "vendor_tree =
     Dir 10 [(''index.js'', File 11 ''x''), (''vendor.js'', Dir 12 [(''lib.js'', File 13 ''y'')])]"

text \<open>
  A project with a file that has a backslash in its name, as POSIX allows, beside a
  directory \<^verbatim>\<open>a\<close> that holds \<^verbatim>\<open>b.js\<close>.
\<close>

definition odd_name :: string where
  "odd_name = ''a'' @ [backslash] @ ''b.js''"

definition odd_fs :: filesystem where
  "odd_fs =
     \<lparr>mount = ''/proj'',
      tree = Dir 10 [(odd_name, File 11 ''x''), (''a'', Dir 12 [(''b.js'', File 13 ''y'')])]\<rparr>"

definition idle :: progress where
  "idle = \<lparr>totalFiles = 0, completedFiles = 0\<rparr>"

definition empty_db :: database where
  "empty_db = \<lparr>rows = (\<lambda>f. []), console = [], unhandled = []\<rparr>"

definition sample_file :: file_record where
  "sample_file =
     \<lparr>filePath = ''a.js'', fileContent = ''x'', fileTokensCount = 1,
      fileHash = ''x'', fileTimestamp = 11\<rparr>"

text \<open>
  A live set and a manifest for the Reconciler, and two objects for \<^verbatim>\<open>getFiles\<close>: one for
  a file that exists, one for a file that is yet to be created.
\<close>

definition sample_live :: "file_record list" where
  "sample_live =
     [\<lparr>filePath = ''a.js'', fileContent = ''z'', fileTokensCount = 1,
       fileHash = ''z'', fileTimestamp = 21\<rparr>,
      \<lparr>filePath = ''b.js'', fileContent = ''y'', fileTokensCount = 1,
       fileHash = ''y'', fileTimestamp = 12\<rparr>,
      \<lparr>filePath = ''c.js'', fileContent = ''w'', fileTokensCount = 1,
       fileHash = ''w'', fileTimestamp = 30\<rparr>]"

definition sample_manifest :: "projection list" where
  "sample_manifest =
     [\<lparr>path = ''a.js'', hash = ''x'', timestamp = 11\<rparr>,
      \<lparr>path = ''b.js'', hash = ''y'', timestamp = 99\<rparr>,
      \<lparr>path = ''gone.js'', hash = ''v'', timestamp = 5\<rparr>]"

definition sample_objects :: "file_object list" where
  "sample_objects =
     [\<lparr>filePath = ''src/main.ts'', exists = JBool True, code = None\<rparr>,
      \<lparr>filePath = ''lib/new.js'', exists = JUndefined, code = None\<rparr>]"

section \<open>Properties of the scan\<close>

text \<open>
  The proofs about \<open>getFilePaths\<close> follow its recursion: the directory case hands over to
  the loop, and the loop case splits on the stat, on the directory test and on the
  extension test, as the source does.
\<close>

lemma accepted_extensions:
  "getFilePaths e n dir s = (Inr ps, s') \<Longrightarrow>
     \<forall>p\<in>set ps. path_extname e p \<in> set (fileExtensionsToProcess e)"
  "scanEntries e dir files acc s = (Inr ps, s') \<Longrightarrow>
     \<forall>p\<in>set acc. path_extname e p \<in> set (fileExtensionsToProcess e) \<Longrightarrow>
     \<forall>p\<in>set ps. path_extname e p \<in> set (fileExtensionsToProcess e)"
proof (induction e n dir s and e dir files acc s arbitrary: ps s' and ps s'
       rule: getFilePaths_scanEntries.induct)
  case (1 e m files dir s)
  then show ?case by (auto split: prod.splits sum.splits)
next
  case (7 e dir name n files projectFiles s)
  show ?case
  proof (cases "stat_node n")
    case None
    with "7.prems" show ?thesis by simp
  next
    case (Some st)
    show ?thesis
    proof (cases "isDirectory st \<and> name \<notin> set (ignoreList e)")
      case True
      obtain r s1 where sub: "getFilePaths e n (posix_join dir name) s = (r, s1)"
        by (cases "getFilePaths e n (posix_join dir name) s")
      show ?thesis
      proof (cases r)
        case (Inl err)
        with "7.prems" Some True sub show ?thesis by simp
      next
        case (Inr subPaths)
        have a: "\<forall>p\<in>set subPaths. path_extname e p \<in> set (fileExtensionsToProcess e)"
          using "7.IH"(1) [OF refl Some True] sub Inr by simp
        have b: "scanEntries e dir files (projectFiles @ subPaths) s1 = (Inr ps, s')"
          using "7.prems"(1) Some True sub Inr by simp
        show ?thesis
          using "7.IH"(2) [OF refl Some True sub [symmetric] Inr b] a "7.prems"(2) by auto
      qed
    next
      case False
      show ?thesis
      proof (cases "path_extname e (posix_join dir name) \<in> set (fileExtensionsToProcess e)")
        case True
        have b: "scanEntries e dir files (projectFiles @ [posix_join dir name]) s = (Inr ps, s')"
          using "7.prems"(1) Some False True by simp
        show ?thesis
          using "7.IH"(3) [OF refl Some False True b] True "7.prems"(2) by auto
      next
        case nope: False
        have b: "scanEntries e dir files projectFiles s = (Inr ps, s')"
          using "7.prems"(1) Some False nope by simp
        show ?thesis
          using "7.IH"(4) [OF refl Some False nope b] "7.prems"(2) by auto
      qed
    qed
  qed
qed simp_all

lemma first_fault_Cons:
  "first_fault (c # cs) = (if cannot c then Some (call_path c) else first_fault cs)"
  by (simp add: first_fault_def)

lemma first_fault_append:
  "first_fault (xs @ ys) =
     (case first_fault xs of None \<Rightarrow> first_fault ys | Some p \<Rightarrow> Some p)"
  by (induction xs) (simp_all add: first_fault_def)

lemma first_fault_Nil: "first_fault [] = None"
  by (simp add: first_fault_def)

lemma cannot_stat: "cannot (StatCall p n) = (stat_node n = None)"
  by (cases n) simp_all

lemma stat_directory: "stat_node n = Some st \<Longrightarrow> isDirectory st = is_directory n"
  by (cases n) auto

lemma scan_faults:
  "thrown (fst (getFilePaths e n dir s)) =
     map_option FilesystemError (first_fault (scan_calls e n dir))"
  "thrown (fst (scanEntries e dir files acc s)) =
     map_option FilesystemError (first_fault (entry_calls e dir files))"
proof (induction e n dir s and e dir files acc s
       rule: getFilePaths_scanEntries.induct)
  case (1 e m files dir s)
  then show ?case
    by (cases "scanEntries e dir files [] s"; cases "fst (scanEntries e dir files [] s)")
       (simp_all add: first_fault_Cons)
next
  case (7 e dir name n files projectFiles s)
  show ?case
  proof (cases "stat_node n")
    case None
    then show ?thesis by (simp add: first_fault_Cons cannot_stat)
  next
    case (Some st)
    note dir_st = stat_directory [OF Some]
    show ?thesis
    proof (cases "isDirectory st \<and> name \<notin> set (ignoreList e)")
      case True
      obtain r s1 where sub: "getFilePaths e n (posix_join dir name) s = (r, s1)"
        by (cases "getFilePaths e n (posix_join dir name) s")
      have ih1: "thrown r =
          map_option FilesystemError (first_fault (scan_calls e n (posix_join dir name)))"
        using "7.IH"(1) [OF refl Some True] sub by simp
      show ?thesis
      proof (cases r)
        case (Inl err)
        with ih1 Some True sub dir_st show ?thesis
          by (auto simp: first_fault_Cons cannot_stat first_fault_append split: option.splits)
      next
        case (Inr subPaths)
        have ih2: "thrown (fst (scanEntries e dir files (projectFiles @ subPaths) s1)) =
            map_option FilesystemError (first_fault (entry_calls e dir files))"
          using "7.IH"(2) [OF refl Some True sub [symmetric] Inr] .
        with ih1 Inr Some True sub dir_st show ?thesis
          by (auto simp: first_fault_Cons cannot_stat first_fault_append split: option.splits)
      qed
    next
      case False
      show ?thesis
      proof (cases "path_extname e (posix_join dir name) \<in> set (fileExtensionsToProcess e)")
        case True
        show ?thesis
          using "7.IH"(3) [OF refl Some False True] Some False True dir_st
          by (auto simp: first_fault_Cons cannot_stat)
      next
        case nope: False
        show ?thesis
          using "7.IH"(4) [OF refl Some False nope] Some False nope dir_st
          by (auto simp: first_fault_Cons cannot_stat)
      qed
    qed
  qed
qed (simp_all add: first_fault_def)

lemma scan_counters:
  "getFilePaths e n dir s = (Inr ps, s') \<Longrightarrow>
     totalFiles s + length ps \<le> totalFiles s' \<and> completedFiles s' = completedFiles s"
  "scanEntries e dir files acc s = (Inr ps, s') \<Longrightarrow>
     totalFiles s \<le> totalFiles s' \<and> completedFiles s' = completedFiles s"
proof (induction e n dir s and e dir files acc s arbitrary: ps s' and ps s'
       rule: getFilePaths_scanEntries.induct)
  case (1 e m files dir s)
  then show ?case by (auto split: prod.splits sum.splits)
next
  case (7 e dir name n files projectFiles s)
  show ?case
  proof (cases "stat_node n")
    case None
    with "7.prems" show ?thesis by simp
  next
    case (Some st)
    show ?thesis
    proof (cases "isDirectory st \<and> name \<notin> set (ignoreList e)")
      case True
      obtain r s1 where sub: "getFilePaths e n (posix_join dir name) s = (r, s1)"
        by (cases "getFilePaths e n (posix_join dir name) s")
      show ?thesis
      proof (cases r)
        case (Inl err)
        with "7.prems" Some True sub show ?thesis by simp
      next
        case (Inr subPaths)
        have a: "totalFiles s + length subPaths \<le> totalFiles s1
                 \<and> completedFiles s1 = completedFiles s"
          using "7.IH"(1) [OF refl Some True] sub Inr by simp
        have b: "scanEntries e dir files (projectFiles @ subPaths) s1 = (Inr ps, s')"
          using "7.prems"(1) Some True sub Inr by simp
        show ?thesis
          using "7.IH"(2) [OF refl Some True sub [symmetric] Inr b] a by simp
      qed
    next
      case False
      show ?thesis
      proof (cases "path_extname e (posix_join dir name) \<in> set (fileExtensionsToProcess e)")
        case True
        have b: "scanEntries e dir files (projectFiles @ [posix_join dir name]) s = (Inr ps, s')"
          using "7.prems"(1) Some False True by simp
        show ?thesis
          using "7.IH"(3) [OF refl Some False True b] by simp
      next
        case nope: False
        have b: "scanEntries e dir files projectFiles s = (Inr ps, s')"
          using "7.prems"(1) Some False nope by simp
        show ?thesis
          using "7.IH"(4) [OF refl Some False nope b] by simp
      qed
    qed
  qed
qed simp_all

text \<open>Whatever the outcome, a scan only adds to \<open>totalFiles\<close>.\<close>

lemma scan_counters_any:
  "getFilePaths e n dir s = (r, s') \<Longrightarrow>
     totalFiles s \<le> totalFiles s' \<and> completedFiles s' = completedFiles s"
  "scanEntries e dir files acc s = (r, s') \<Longrightarrow>
     totalFiles s \<le> totalFiles s' \<and> completedFiles s' = completedFiles s"
proof (induction e n dir s and e dir files acc s arbitrary: r s' and r s'
       rule: getFilePaths_scanEntries.induct)
  case (1 e m files dir s)
  obtain r0 s0 where loop: "scanEntries e dir files [] s = (r0, s0)"
    by (cases "scanEntries e dir files [] s")
  from "1.IH" [OF loop] "1.prems" loop show ?case
    by (cases r0) auto
next
  case (7 e dir name n files projectFiles s)
  show ?case
  proof (cases "stat_node n")
    case None
    with "7.prems" show ?thesis by auto
  next
    case (Some st)
    show ?thesis
    proof (cases "isDirectory st \<and> name \<notin> set (ignoreList e)")
      case True
      obtain r1 s1 where sub: "getFilePaths e n (posix_join dir name) s = (r1, s1)"
        by (cases "getFilePaths e n (posix_join dir name) s")
      have a: "totalFiles s \<le> totalFiles s1 \<and> completedFiles s1 = completedFiles s"
        using "7.IH"(1) [OF refl Some True sub] .
      show ?thesis
      proof (cases r1)
        case (Inl err)
        with "7.prems" Some True sub a show ?thesis by auto
      next
        case (Inr subPaths)
        have b: "scanEntries e dir files (projectFiles @ subPaths) s1 = (r, s')"
          using "7.prems"(1) Some True sub Inr by simp
        show ?thesis
          using "7.IH"(2) [OF refl Some True sub [symmetric] Inr b] a by simp
      qed
    next
      case False
      show ?thesis
      proof (cases "path_extname e (posix_join dir name) \<in> set (fileExtensionsToProcess e)")
        case True
        have b: "scanEntries e dir files (projectFiles @ [posix_join dir name]) s = (r, s')"
          using "7.prems"(1) Some False True by simp
        show ?thesis
          using "7.IH"(3) [OF refl Some False True b] by simp
      next
        case nope: False
        have b: "scanEntries e dir files projectFiles s = (r, s')"
          using "7.prems"(1) Some False nope by simp
        show ?thesis
          using "7.IH"(4) [OF refl Some False nope b] by simp
      qed
    qed
  qed
qed auto

text \<open>
  C5: if one of the \<^verbatim>\<open>readdirSync\<close> and \<^verbatim>\<open>statSync\<close> calls of a scan cannot be carried out,
  \<open>getFilePaths\<close> returns no list: it fails with a \<open>FilesystemError\<close> that carries the path
  of the first such call.
\<close>

theorem getFilePaths_fault_propagation:
  assumes "c \<in> set (scan_calls e n dir)" and "cannot c"
  shows "\<exists>p. first_fault (scan_calls e n dir) = Some p
             \<and> fst (getFilePaths e n dir s) = Inl (FilesystemError p)"
proof -
  from assms have "find cannot (scan_calls e n dir) \<noteq> None"
    by (auto simp: find_None_iff)
  then obtain p where p: "first_fault (scan_calls e n dir) = Some p"
    by (auto simp: first_fault_def)
  with scan_faults(1) [of e n dir s]
  have "thrown (fst (getFilePaths e n dir s)) = Some (FilesystemError p)"
    by simp
  then have "fst (getFilePaths e n dir s) = Inl (FilesystemError p)"
    by (cases "fst (getFilePaths e n dir s)") simp_all
  with p show ?thesis by blast
qed

text \<open>
  In the project with the locked directory the scan stats \<^verbatim>\<open>/proj/src/locked\<close>, tries to
  list it, and fails with that path.
\<close>

theorem getFilePaths_fault_propagation_witness:
  "ListCall ''/proj/src/locked'' (NoList 16) \<in> set (scan_calls sample_env locked_tree ''/proj'')
   \<and> cannot (ListCall ''/proj/src/locked'' (NoList 16))
   \<and> fst (getFilePaths sample_env locked_tree ''/proj'' idle)
       = Inl (FilesystemError ''/proj/src/locked'')"
proof -
  have a: "ListCall ''/proj/src/locked'' (NoList 16)
             \<in> set (scan_calls sample_env locked_tree ''/proj'')"
    by code_simp
  have b: "cannot (ListCall ''/proj/src/locked'' (NoList 16))"
    by simp
  have c: "first_fault (scan_calls sample_env locked_tree ''/proj'') = Some ''/proj/src/locked''"
    by code_simp
  from getFilePaths_fault_propagation [OF a b, of idle] c a b
  show ?thesis by simp
qed

text \<open>
  C8: a path whose extension is not in the accepted set is never in the list that
  \<open>getFilePaths\<close> returns.
\<close>

theorem getFilePaths_extension_filter:
  assumes "fst (getFilePaths e n dir s) = Inr ps"
    and "path_extname e p \<notin> set (fileExtensionsToProcess e)"
  shows "p \<notin> set ps"
proof -
  obtain s' where "getFilePaths e n dir s = (Inr ps, s')"
    using assms(1) by (cases "getFilePaths e n dir s") simp
  from accepted_extensions(1) [OF this] assms(2) show ?thesis by blast
qed

text \<open>
  In the sample project \<^verbatim>\<open>notes.txt\<close> is left out although its sibling \<^verbatim>\<open>a.js\<close> is
  returned.
\<close>

theorem getFilePaths_extension_filter_witness:
  "fst (getFilePaths sample_env sample_tree ''/proj'' idle)
     = Inr [''/proj/a.js'', ''/proj/src/empty.ts'', ''/proj/src/main.ts'']
   \<and> posix_extname ''/proj/notes.txt'' \<notin> set (fileExtensionsToProcess sample_env)
   \<and> ''/proj/notes.txt'' \<notin> set [''/proj/a.js'', ''/proj/src/empty.ts'', ''/proj/src/main.ts'']"
proof -
  have a: "fst (getFilePaths sample_env sample_tree ''/proj'' idle)
             = Inr [''/proj/a.js'', ''/proj/src/empty.ts'', ''/proj/src/main.ts'']"
    by code_simp
  have b: "path_extname sample_env ''/proj/notes.txt''
             \<notin> set (fileExtensionsToProcess sample_env)"
    by code_simp
  have c: "posix_extname ''/proj/notes.txt'' \<notin> set (fileExtensionsToProcess sample_env)"
    by code_simp
  from getFilePaths_extension_filter [OF a b] a c show ?thesis by blast
qed

section \<open>Properties of the path functions\<close>

text \<open>
  Joining a directory with a name, as the scan does, appends the name to the resolved
  segments of the directory, whatever the directory's path looks like. The relative path
  from a directory to what lies beneath it is therefore the chain of names.
\<close>

lemma js_split_nonempty: "js_split c s \<noteq> []"
  by (induction s) (auto split: list.splits)

lemma js_split_whole: "c \<notin> set n \<Longrightarrow> js_split c n = [n]"
  by (induction n) auto

lemma js_split_at: "js_split c (a @ c # b) = js_split c a @ js_split c b"
proof (induction a)
  case Nil
  show ?case by simp
next
  case (Cons x a)
  obtain w ws where w: "js_split c a = w # ws"
    using js_split_nonempty [of c a] by (cases "js_split c a") auto
  with Cons show ?case by simp
qed

lemma js_split_pieces: "w \<in> set (js_split c s) \<Longrightarrow> c \<notin> set w"
proof (induction s arbitrary: w)
  case Nil
  then show ?case by simp
next
  case (Cons x s)
  then show ?case by (auto split: if_splits list.splits)
qed

lemma segments_unsegments:
  "xs \<noteq> [] \<Longrightarrow> \<forall>x\<in>set xs. CHR ''/'' \<notin> set x \<Longrightarrow> segments (unsegments xs) = xs"
proof (induction xs rule: unsegments.induct)
  case 1
  then show ?case by simp
next
  case (2 x)
  then show ?case by (simp add: segments_def js_split_whole)
next
  case (3 x y ys)
  then show ?case
    using js_split_at [of "CHR ''/''" x "unsegments (y # ys)"]
    by (simp add: segments_def js_split_whole)
qed

lemma unsegments_snoc:
  "xs \<noteq> [] \<Longrightarrow> unsegments (xs @ [n]) = unsegments xs @ ''/'' @ n"
  by (induction xs rule: unsegments.induct) simp_all

lemma step_name: "entry_name n \<Longrightarrow> normalize_step a res n = res @ [n]"
  by (simp add: normalize_step_def entry_name_def)

lemma step_empty: "normalize_step a res [] = res"
  by (simp add: normalize_step_def)

lemma step_kept:
  "\<forall>x\<in>set res. kept x \<Longrightarrow> \<forall>x\<in>set (normalize_step a res seg). kept x"
  by (auto simp: normalize_step_def kept_def dest: in_set_butlastD)

lemma fold_kept:
  "\<forall>x\<in>set res. kept x \<Longrightarrow> \<forall>x\<in>set (foldl (normalize_step a) res segs). kept x"
proof (induction segs arbitrary: res)
  case Nil
  then show ?case by simp
next
  case (Cons seg segs)
  from Cons.IH [OF step_kept [OF Cons.prems]] show ?case by simp
qed

lemma step_slashless:
  "CHR ''/'' \<notin> set seg \<Longrightarrow> \<forall>x\<in>set res. CHR ''/'' \<notin> set x \<Longrightarrow>
     \<forall>x\<in>set (normalize_step a res seg). CHR ''/'' \<notin> set x"
  by (auto simp: normalize_step_def dest: in_set_butlastD)

lemma fold_slashless:
  "\<forall>x\<in>set segs. CHR ''/'' \<notin> set x \<Longrightarrow> \<forall>x\<in>set res. CHR ''/'' \<notin> set x \<Longrightarrow>
     \<forall>x\<in>set (foldl (normalize_step a) res segs). CHR ''/'' \<notin> set x"
proof (induction segs arbitrary: res)
  case Nil
  then show ?case by simp
next
  case (Cons seg segs)
  have "\<forall>x\<in>set (normalize_step a res seg). CHR ''/'' \<notin> set x"
    using Cons.prems by (intro step_slashless) simp_all
  from Cons.IH [OF _ this] Cons.prems(1) show ?case by simp
qed

lemma normalizeString_slashless: "x \<in> set (normalizeString a p) \<Longrightarrow> CHR ''/'' \<notin> set x"
  using fold_slashless [of "segments p" "[]" a]
  by (auto simp: normalizeString_def segments_def dest: js_split_pieces)

lemma normalizeString_kept: "x \<in> set (normalizeString a p) \<Longrightarrow> kept x"
  using fold_kept [of "[]" a "segments p"] by (simp add: normalizeString_def)

text \<open>Folding the relative normal form of a path is folding the path.\<close>

lemma step_through:
  assumes "\<forall>x\<in>set A. kept x"
  shows "foldl (normalize_step False) C (normalize_step True A seg) =
         normalize_step False (foldl (normalize_step False) C A) seg"
proof (cases "seg = ''..'' \<and> A \<noteq> [] \<and> last A \<noteq> ''..''")
  case True
  then obtain B b where A: "A = B @ [b]" and b: "b \<noteq> ''..''"
    by (metis append_butlast_last_id)
  from assms A have "kept b" by simp
  with b have "normalize_step False X b = X @ [b]" for X
    by (simp add: normalize_step_def kept_def)
  with True A b show ?thesis by (simp add: normalize_step_def)
next
  case False
  then show ?thesis by (auto simp: normalize_step_def)
qed

lemma fold_through:
  assumes "\<forall>x\<in>set A. kept x"
  shows "foldl (normalize_step False) C (foldl (normalize_step True) A segs) =
         foldl (normalize_step False) (foldl (normalize_step False) C A) segs"
  using assms
proof (induction segs arbitrary: A)
  case Nil
  then show ?case by simp
next
  case (Cons seg segs)
  from Cons.IH [OF step_kept [OF Cons.prems]] step_through [OF Cons.prems]
  show ?case by simp
qed

lemma fold_names:
  "\<forall>x\<in>set xs. kept x \<and> x \<noteq> ''..'' \<Longrightarrow> foldl (normalize_step a) acc xs = acc @ xs"
  by (induction xs arbitrary: acc) (simp_all add: normalize_step_def kept_def)

lemma step_no_dotdot:
  "\<forall>x\<in>set res. x \<noteq> ''..'' \<Longrightarrow> \<forall>x\<in>set (normalize_step False res seg). x \<noteq> ''..''"
  by (auto simp: normalize_step_def dest: in_set_butlastD)

lemma fold_no_dotdot:
  "\<forall>x\<in>set res. x \<noteq> ''..'' \<Longrightarrow> \<forall>x\<in>set (foldl (normalize_step False) res segs). x \<noteq> ''..''"
proof (induction segs arbitrary: res)
  case Nil
  then show ?case by simp
next
  case (Cons seg segs)
  from Cons.IH [OF step_no_dotdot [OF Cons.prems]] show ?case by simp
qed

lemma name_slashless: "entry_name n \<Longrightarrow> CHR ''/'' \<notin> set n"
  by (simp add: entry_name_def)

lemma segments_name: "entry_name n \<Longrightarrow> segments n = [n]"
  by (simp add: segments_def js_split_whole entry_name_def)

lemma segments_slash: "segments (a @ CHR ''/'' # b) = segments a @ segments b"
  by (simp add: segments_def js_split_at)

lemma name_last: "entry_name n \<Longrightarrow> n \<noteq> [] \<and> last n \<noteq> CHR ''/''"
proof -
  assume n: "entry_name n"
  then have ne: "n \<noteq> []" by (simp add: entry_name_def)
  then have "last n \<in> set n" by (rule last_in_set)
  moreover from n have "CHR ''/'' \<notin> set n" by (simp add: entry_name_def)
  ultimately have "last n \<noteq> CHR ''/''" by metis
  with ne show ?thesis by simp
qed

lemma name_relative: "entry_name n \<Longrightarrow> \<not> isAbsolute n"
  by (cases n) (auto simp: entry_name_def isAbsolute_def)

lemma isAbsolute_append: "dir \<noteq> [] \<Longrightarrow> isAbsolute (dir @ rest) = isAbsolute dir"
  by (cases dir) (simp_all add: isAbsolute_def)

lemma normalizeString_snoc_name:
  "entry_name n \<Longrightarrow> normalizeString a (dir @ CHR ''/'' # n) = normalizeString a dir @ [n]"
  by (simp add: normalizeString_def segments_slash segments_name step_name)

lemma join_empty: "entry_name n \<Longrightarrow> posix_join [] n = n"
proof -
  assume n: "entry_name n"
  then have ne: "n \<noteq> []" and last: "last n \<noteq> CHR ''/''"
    using name_last by auto
  have "normalizeString True n = [n]"
    using n by (simp add: normalizeString_def segments_name step_name)
  with n ne last show ?thesis
    by (simp add: posix_join_def posix_normalize_def Let_def name_relative)
qed

lemma join_name:
  assumes "entry_name n" and "dir \<noteq> []"
  shows "posix_join dir n =
           (if isAbsolute dir then ''/'' else []) @
           unsegments (normalizeString (\<not> isAbsolute dir) dir @ [n])"
proof -
  from assms(1) have ne: "n \<noteq> []" and last: "last n \<noteq> CHR ''/''"
    using name_last by auto
  have abs: "isAbsolute (dir @ CHR ''/'' # n) = isAbsolute dir"
    using isAbsolute_append [OF assms(2)] by simp
  have "last (dir @ CHR ''/'' # n) = last n" using ne by simp
  with assms last abs show ?thesis
    by (simp add: posix_join_def posix_normalize_def Let_def normalizeString_snoc_name ne)
qed

lemma resolve_fold:
  "resolve_segments cwd p =
     foldl (normalize_step False) [] (segments (rooted cwd p))"
proof -
  have "segments (rooted cwd p @ ''/'') = segments (rooted cwd p) @ [[]]"
    using segments_slash [of "rooted cwd p" "[]"] by (simp add: segments_def)
  then show ?thesis
    by (simp add: resolve_segments_def rooted_def [symmetric] normalizeString_def step_empty)
qed

lemma resolve_relative:
  "\<not> isAbsolute p \<Longrightarrow>
     resolve_segments cwd p =
       foldl (normalize_step False) (foldl (normalize_step False) [] (segments cwd))
         (if p = [] then [] else segments p)"
  by (simp add: resolve_fold rooted_def segments_slash)

lemma unsegments_relative:
  "xs \<noteq> [] \<Longrightarrow> \<forall>x\<in>set xs. kept x \<and> CHR ''/'' \<notin> set x \<Longrightarrow>
     unsegments xs \<noteq> [] \<and> \<not> isAbsolute (unsegments xs)"
proof (induction xs rule: unsegments.induct)
  case 1
  then show ?case by simp
next
  case (2 x)
  then show ?case by (cases x) (auto simp: kept_def isAbsolute_def)
next
  case (3 x y ys)
  then show ?case by (cases x) (auto simp: kept_def isAbsolute_def)
qed

lemma name_kept: "entry_name n \<Longrightarrow> kept n \<and> n \<noteq> ''..''"
  by (simp add: entry_name_def kept_def)

lemma resolve_join:
  assumes n: "entry_name n"
  shows "resolve_segments cwd (posix_join dir n) = resolve_segments cwd dir @ [n]"
proof (cases "dir = []")
  case True
  have "\<not> isAbsolute n" "n \<noteq> []" using n name_relative by (auto simp: entry_name_def)
  then have "resolve_segments cwd n =
      foldl (normalize_step False) (foldl (normalize_step False) [] (segments cwd)) [n]"
    using n by (simp add: resolve_relative segments_name)
  moreover have "resolve_segments cwd [] = foldl (normalize_step False) [] (segments cwd)"
    by (simp add: resolve_relative isAbsolute_def)
  ultimately show ?thesis
    using True n by (simp add: join_empty step_name)
next
  case False
  show ?thesis
  proof (cases "isAbsolute dir")
    case True
    let ?D = "normalizeString False dir"
    have D: "\<forall>x\<in>set (?D @ [n]). kept x \<and> x \<noteq> ''..''"
      using n fold_no_dotdot [of "[]" "segments dir"] normalizeString_kept [of _ False dir]
      by (auto simp: normalizeString_def name_kept)
    have slashless: "\<forall>x\<in>set (?D @ [n]). CHR ''/'' \<notin> set x"
      using n normalizeString_slashless [of _ False dir] by (auto simp: name_slashless)
    have J: "posix_join dir n = CHR ''/'' # unsegments (?D @ [n])"
      using join_name [OF n False] True by simp
    have "segments (posix_join dir n) = [] # (?D @ [n])"
      unfolding J using segments_slash [of "[]" "unsegments (?D @ [n])"]
        segments_unsegments [OF _ slashless]
      by (simp add: segments_def)
    moreover have "isAbsolute (posix_join dir n)" unfolding J by (simp add: isAbsolute_def)
    ultimately have "resolve_segments cwd (posix_join dir n) = ?D @ [n]"
      using fold_names [OF D, of False "[]"]
      by (simp add: resolve_fold rooted_def step_empty)
    moreover have "resolve_segments cwd dir = ?D"
      using True by (simp add: resolve_fold rooted_def normalizeString_def)
    ultimately show ?thesis by simp
  next
    case rel: False
    let ?D = "normalizeString True dir"
    let ?C = "foldl (normalize_step False) [] (segments cwd)"
    have kept: "\<forall>x\<in>set (?D @ [n]). kept x \<and> CHR ''/'' \<notin> set x"
      using n normalizeString_kept [of _ True dir] normalizeString_slashless [of _ True dir]
      by (auto simp: name_kept name_slashless)
    have J: "posix_join dir n = unsegments (?D @ [n])"
      using join_name [OF n False] rel by simp
    have Jrel: "posix_join dir n \<noteq> [] \<and> \<not> isAbsolute (posix_join dir n)"
      unfolding J using unsegments_relative [OF _ kept] by simp
    have "segments (posix_join dir n) = ?D @ [n]"
      unfolding J using segments_unsegments [of "?D @ [n]"] kept by simp
    with Jrel have "resolve_segments cwd (posix_join dir n) =
        foldl (normalize_step False) ?C (?D @ [n])"
      by (simp add: resolve_relative)
    also have "\<dots> = foldl (normalize_step False) ?C ?D @ [n]"
      using n by (simp add: step_name)
    also have "foldl (normalize_step False) ?C ?D =
        foldl (normalize_step False) ?C (segments dir)"
      using fold_through [of "[]" ?C "segments dir"] by (simp add: normalizeString_def)
    also have "\<dots> = resolve_segments cwd dir"
      using rel False by (simp add: resolve_relative)
    finally show ?thesis .
  qed
qed

lemma resolve_beneath:
  "\<forall>n\<in>set names. entry_name n \<Longrightarrow>
     resolve_segments cwd (beneath dir names) = resolve_segments cwd dir @ names"
proof (induction names rule: rev_induct)
  case Nil
  then show ?case by (simp add: beneath_def)
next
  case (snoc n names)
  then show ?case by (simp add: beneath_def resolve_join)
qed

lemma strip_common_prefix: "strip_common xs (xs @ ys) = ([], ys)"
proof (induction xs)
  case Nil
  show ?case by (cases ys) simp_all
next
  case (Cons x xs)
  then show ?case by simp
qed

lemma relative_beneath:
  assumes "\<forall>n\<in>set names. entry_name n"
  shows "posix_relative cwd dir (beneath dir names) = unsegments names"
proof (cases "dir = beneath dir names")
  case True
  then have "resolve_segments cwd dir = resolve_segments cwd dir @ names"
    using resolve_beneath [OF assms, of cwd dir] by simp
  then have "names = []" by simp
  with True show ?thesis by (simp add: posix_relative_def)
next
  case False
  then show ?thesis
    by (simp add: posix_relative_def resolve_beneath [OF assms] strip_common_prefix)
qed

lemma replace_backslashes_clean: "backslash \<notin> set (replace_backslashes p)"
  by (auto simp: replace_backslashes_def backslash_def)

lemma replace_backslashes_same: "backslash \<notin> set p \<Longrightarrow> replace_backslashes p = p"
  by (induction p) (auto simp: replace_backslashes_def)

lemma unsegments_set:
  "set (unsegments xs) \<subseteq> insert (CHR ''/'') (\<Union> (set ` set xs))"
  by (induction xs rule: unsegments.induct) auto

section \<open>The scan and the ignore list\<close>

lemma beneath_inject:
  assumes "beneath dir xs = beneath dir ys"
    and "\<forall>x\<in>set xs. entry_name x" and "\<forall>y\<in>set ys. entry_name y"
  shows "xs = ys"
proof -
  have "resolve_segments [] dir @ xs = resolve_segments [] (beneath dir xs)"
    by (rule resolve_beneath [OF assms(2), symmetric])
  also have "\<dots> = resolve_segments [] (beneath dir ys)"
    by (simp only: assms(1))
  also have "\<dots> = resolve_segments [] dir @ ys"
    by (rule resolve_beneath [OF assms(3)])
  finally show ?thesis by simp
qed

lemma reachable_entry: "entry_name name \<Longrightarrow> reachable e dir (posix_join dir name)"
  unfolding reachable_def by (intro exI [of _ "[name]"]) (simp add: beneath_def)

lemma reachable_descend:
  assumes "reachable e (posix_join dir name) p" and "entry_name name"
    and "name \<notin> set (ignoreList e)"
  shows "reachable e dir p"
proof -
  from assms(1) obtain names where names: "names \<noteq> []" "p = beneath (posix_join dir name) names"
    "\<forall>x\<in>set names. entry_name x" "\<forall>x\<in>set (butlast names). x \<notin> set (ignoreList e)"
    unfolding reachable_def by blast
  show ?thesis
    unfolding reachable_def
    using names assms(2,3) by (intro exI [of _ "name # names"]) (simp add: beneath_def)
qed

lemma scan_reachable:
  "well_named n \<Longrightarrow> getFilePaths e n dir s = (Inr ps, s') \<Longrightarrow>
     \<forall>p\<in>set ps. reachable e dir p"
  "well_named_entries files \<Longrightarrow> scanEntries e dir files acc s = (Inr ps, s') \<Longrightarrow>
     \<forall>p\<in>set acc. reachable e dir p \<Longrightarrow> \<forall>p\<in>set ps. reachable e dir p"
proof (induction e n dir s and e dir files acc s arbitrary: ps s' and ps s'
       rule: getFilePaths_scanEntries.induct)
  case (1 e m files dir s)
  then show ?case by (auto split: prod.splits sum.splits)
next
  case (7 e dir name n files projectFiles s)
  from "7.prems"(1) have wn: "entry_name name" "well_named n" "well_named_entries files"
    by simp_all
  show ?case
  proof (cases "stat_node n")
    case None
    with "7.prems" show ?thesis by simp
  next
    case (Some st)
    show ?thesis
    proof (cases "isDirectory st \<and> name \<notin> set (ignoreList e)")
      case True
      obtain r s1 where sub: "getFilePaths e n (posix_join dir name) s = (r, s1)"
        by (cases "getFilePaths e n (posix_join dir name) s")
      show ?thesis
      proof (cases r)
        case (Inl err)
        with "7.prems" Some True sub show ?thesis by simp
      next
        case (Inr subPaths)
        have "\<forall>p\<in>set subPaths. reachable e (posix_join dir name) p"
          using "7.IH"(1) [OF refl Some True wn(2)] sub Inr by simp
        then have a: "\<forall>p\<in>set subPaths. reachable e dir p"
          using reachable_descend wn(1) True by blast
        have b: "scanEntries e dir files (projectFiles @ subPaths) s1 = (Inr ps, s')"
          using "7.prems"(2) Some True sub Inr by simp
        show ?thesis
          using "7.IH"(2) [OF refl Some True sub [symmetric] Inr wn(3) b] a "7.prems"(3)
          by auto
      qed
    next
      case False
      show ?thesis
      proof (cases "path_extname e (posix_join dir name) \<in> set (fileExtensionsToProcess e)")
        case True
        have b: "scanEntries e dir files (projectFiles @ [posix_join dir name]) s = (Inr ps, s')"
          using "7.prems"(2) Some False True by simp
        show ?thesis
          using "7.IH"(3) [OF refl Some False True wn(3) b] reachable_entry [OF wn(1)]
            "7.prems"(3) by auto
      next
        case nope: False
        have b: "scanEntries e dir files projectFiles s = (Inr ps, s')"
          using "7.prems"(2) Some False nope by simp
        show ?thesis
          using "7.IH"(4) [OF refl Some False nope wn(3) b] "7.prems"(3) by auto
      qed
    qed
  qed
qed simp_all

text \<open>
  What the ignore list does deliver: in a tree with proper entry names, no path that lies
  beneath an entry named on the ignore list, at any depth, is in the list the scan returns.
\<close>

lemma getFilePaths_skips_ignored_contents:
  assumes "well_named n"
    and "fst (getFilePaths e n dir s) = Inr ps"
    and "ignored \<in> set (ignoreList e)"
    and "\<forall>x\<in>set (outer @ ignored # inner). entry_name x"
    and "inner \<noteq> []"
  shows "beneath dir (outer @ ignored # inner) \<notin> set ps"
proof
  assume "beneath dir (outer @ ignored # inner) \<in> set ps"
  moreover obtain s' where "getFilePaths e n dir s = (Inr ps, s')"
    using assms(2) by (cases "getFilePaths e n dir s") simp
  ultimately have "reachable e dir (beneath dir (outer @ ignored # inner))"
    using scan_reachable(1) [OF assms(1)] by blast
  then obtain names where names: "names \<noteq> []"
    "beneath dir (outer @ ignored # inner) = beneath dir names"
    "\<forall>x\<in>set names. entry_name x" "\<forall>x\<in>set (butlast names). x \<notin> set (ignoreList e)"
    unfolding reachable_def by blast
  from beneath_inject [OF names(2) assms(4) names(3)]
  have "names = outer @ ignored # inner" by simp
  with assms(5) have "ignored \<in> set (butlast names)"
    by (simp add: butlast_append)
  with names(4) assms(3) show False by blast
qed

text \<open>
  C2, at the failing input: \<^verbatim>\<open>IGNORE_LIST=node_modules,vendor.js\<close>,
  \<^verbatim>\<open>FILE_EXTENSIONS_TO_PROCESS=.js\<close>, and a project whose directory \<^verbatim>\<open>vendor.js\<close> holds
  \<^verbatim>\<open>lib.js\<close>. The ignored directory is not descended into, but it falls through to the
  \<^verbatim>\<open>else if\<close> meant for files, and its own path is returned among the project files,
  where the function's comment promises the paths of project files only.
\<close>

theorem getFilePaths_lists_ignored_directory:
  "fst (getFilePaths vendor_env vendor_tree ''/proj'' idle) =
     Inr [''/proj/index.js'', ''/proj/vendor.js'']
   \<and> ''vendor.js'' \<in> set (ignoreList vendor_env)"
  by code_simp

section \<open>Properties of loading\<close>

lemma read_then_stat: "readFileSync fs p = Inr c \<Longrightarrow> \<exists>st. statSync fs p = Inr st"
  by (auto simp: readFileSync_def statSync_def split: option.splits fsnode.splits)

lemma parse_after_stat:
  "statSync fs p = Inr st \<Longrightarrow>
     parseFileContent e fs dir p c =
       Inr \<lparr>filePath = replace_backslashes (path_relative e dir p), fileContent = c,
            fileTokensCount = countTokens e c, fileHash = hashFile e c,
            fileTimestamp = mtimeMs st\<rparr>"
  by (simp add: parseFileContent_def Let_def)

lemma bar_fits:
  assumes "completedFiles s \<le> totalFiles s"
  shows "updateProgressBar s = None"
proof (cases "totalFiles s = 0")
  case True
  with assms show ?thesis by (simp add: updateProgressBar_def)
next
  case False
  have "completedFiles s * 100 \<le> 100 * totalFiles s" using assms by simp
  then have "(completedFiles s * 100) div totalFiles s \<le> 100"
    using False by (metis div_le_mono nonzero_mult_div_cancel_right)
  then have "((completedFiles s * 100) div totalFiles s) div 2 \<le> 50" by simp
  with False show ?thesis by (simp add: updateProgressBar_def Let_def)
qed

lemma loadLoop_result:
  assumes "\<forall>p\<in>set ps. \<exists>c. readFileSync fs p = Inr c"
    and "completedFiles s + length ps \<le> totalFiles s"
  shows "\<exists>recs. fst (loadLoop e fs dir ps acc s) = Inr (acc @ recs)
           \<and> map Inr recs = map (load_one e fs dir) [p \<leftarrow> ps. readFileSync fs p \<noteq> Inr []]"
  using assms
proof (induction ps arbitrary: acc s)
  case Nil
  then show ?case by simp
next
  case (Cons p ps)
  then obtain c where c: "readFileSync fs p = Inr c" by auto
  show ?case
  proof (cases "c = []")
    case True
    have "completedFiles s + length ps \<le> totalFiles s" using Cons.prems(2) by simp
    from Cons.IH [OF _ this, of acc] Cons.prems(1) c True show ?thesis by simp
  next
    case False
    obtain st where st: "statSync fs p = Inr st" using read_then_stat [OF c] by blast
    define r where "r = \<lparr>filePath = replace_backslashes (path_relative e dir p), fileContent = c,
            fileTokensCount = countTokens e c, fileHash = hashFile e c,
            fileTimestamp = mtimeMs st\<rparr>"
    have parse: "parseFileContent e fs dir p c = Inr r"
      unfolding r_def by (rule parse_after_stat [OF st])
    define s1 where "s1 = s\<lparr>completedFiles := completedFiles s + 1\<rparr>"
    have fits: "updateProgressBar s1 = None"
      using Cons.prems(2) by (intro bar_fits) (simp add: s1_def)
    have inv: "completedFiles s1 + length ps \<le> totalFiles s1"
      using Cons.prems(2) by (simp add: s1_def)
    have step: "loadLoop e fs dir (p # ps) acc s = loadLoop e fs dir ps (acc @ [r]) s1"
      using c False parse fits by (simp add: s1_def Let_def)
    from Cons.IH [OF _ inv, of "acc @ [r]"] Cons.prems(1)
    obtain recs where recs: "fst (loadLoop e fs dir ps (acc @ [r]) s1) = Inr ((acc @ [r]) @ recs)"
      "map Inr recs = map (load_one e fs dir) [p \<leftarrow> ps. readFileSync fs p \<noteq> Inr []]"
      by auto
    have "load_one e fs dir p = Inr r" using c parse by (simp add: load_one_def)
    with recs step c False show ?thesis
      by (intro exI [of _ "r # recs"]) simp
  qed
qed

lemma getFilesLoop_result:
  assumes "\<forall>f\<in>set files. truthy (exists f) \<longrightarrow>
             (\<exists>c. readFileSync fs (posix_join base (filePath f)) = Inr c)"
  shows "getFilesLoop fs base files acc reads =
           (Inr (acc @ map (with_code fs base) files),
            reads @ [posix_join base (filePath f). f \<leftarrow> files, truthy (exists f)])"
  using assms
proof (induction files arbitrary: acc reads)
  case Nil
  then show ?case by simp
next
  case (Cons f files)
  show ?case
  proof (cases "truthy (exists f)")
    case True
    with Cons.prems obtain c where c: "readFileSync fs (posix_join base (filePath f)) = Inr c"
      by auto
    with True Cons.IH [of "acc @ [f\<lparr>code := Some c\<rparr>]" "reads @ [posix_join base (filePath f)]"]
      Cons.prems
    show ?thesis by (simp add: with_code_def Let_def)
  next
    case False
    with Cons.IH [of "acc @ [f\<lparr>code := Some ''// This is a new file''\<rparr>]" reads] Cons.prems
    show ?thesis by (simp add: with_code_def Let_def)
  qed
qed


text \<open>
  The counters stay in step: they start at 0 and 0, and a call of \<open>loadFiles\<close> that finds
  \<open>completedFiles \<le> totalFiles\<close> leaves it so, whether it returns or throws.
\<close>

lemma loadLoop_counters:
  "completedFiles s + length ps \<le> totalFiles s \<Longrightarrow>
     completedFiles (snd (loadLoop e fs dir ps acc s)) \<le> totalFiles (snd (loadLoop e fs dir ps acc s))"
proof (induction ps arbitrary: acc s)
  case Nil
  then show ?case by simp
next
  case (Cons p ps)
  let ?s1 = "s\<lparr>completedFiles := completedFiles s + 1\<rparr>"
  have a: "completedFiles s + length ps \<le> totalFiles s" using Cons.prems by simp
  have b: "completedFiles ?s1 + length ps \<le> totalFiles ?s1" using Cons.prems by simp
  have c: "completedFiles ?s1 \<le> totalFiles ?s1" using Cons.prems by simp
  have d: "completedFiles s \<le> totalFiles s" using Cons.prems by simp
  show ?case
    using Cons.IH [OF a] Cons.IH [OF b] c d
    by (auto simp: Let_def split: sum.splits option.splits)
qed

lemma loadFiles_counters:
  assumes "completedFiles s \<le> totalFiles s"
  shows "completedFiles (snd (loadFiles e fs dir s)) \<le> totalFiles (snd (loadFiles e fs dir s))"
proof (cases "lookup fs dir")
  case None
  with assms show ?thesis by (simp add: loadFiles_def)
next
  case (Some n)
  obtain r s1 where scan: "getFilePaths e n dir s = (r, s1)"
    by (cases "getFilePaths e n dir s")
  note any = scan_counters_any(1) [OF scan]
  show ?thesis
  proof (cases r)
    case (Inl err)
    with Some scan any assms show ?thesis by (simp add: loadFiles_def)
  next
    case (Inr ps)
    from scan_counters(1) [OF scan [unfolded Inr]] assms
    have "completedFiles s1 + length ps \<le> totalFiles s1" by simp
    from loadLoop_counters [OF this, of e fs dir "[]"] Some scan Inr
    show ?thesis by (simp add: loadFiles_def)
  qed
qed

text \<open>
  C3, as stated: \<open>loadFiles\<close> produces a record for every readable file, empty ones included.
  It does not: in the sample project the scan returns \<^verbatim>\<open>/proj/src/empty.ts\<close>, the file is
  read as the empty string, and \<open>loadFiles\<close> returns records for the other two files only.
\<close>

theorem loadFiles_empty_file_counterexample:
  "fst (getFilePaths sample_env sample_tree ''/proj'' idle)
     = Inr [''/proj/a.js'', ''/proj/src/empty.ts'', ''/proj/src/main.ts'']
   \<and> readFileSync sample_fs ''/proj/src/empty.ts'' = Inr []
   \<and> fst (loadFiles sample_env sample_fs ''/proj'' idle)
       = Inr [\<lparr>filePath = ''a.js'', fileContent = ''x'', fileTokensCount = 1,
                fileHash = ''x'', fileTimestamp = 11\<rparr>,
              \<lparr>filePath = ''src/main.ts'', fileContent = ''hello'', fileTokensCount = 5,
                fileHash = ''olleh'', fileTimestamp = 17\<rparr>]"
  by code_simp

text \<open>
  C3, amended: \<open>parseFileContent\<close> takes empty content like any other and returns a record
  for it whenever the file can be statted; it is \<open>loadFiles\<close> that leaves empty files out.
  When the counters are in step (\<open>completedFiles \<le> totalFiles\<close>, as they are at start and
  after every call) and every scanned path can be read, \<open>loadFiles\<close> returns, in scan order,
  the record of every scanned file whose content is not empty, and of no other.
\<close>

theorem loadFiles_skips_empty_files:
  "parseFileContent e fs dir q [] =
     (case statSync fs q of
        Inl err \<Rightarrow> Inl err
      | Inr st \<Rightarrow>
          Inr \<lparr>filePath = replace_backslashes (path_relative e dir q), fileContent = [],
               fileTokensCount = countTokens e [], fileHash = hashFile e [],
               fileTimestamp = mtimeMs st\<rparr>)
   \<and> (completedFiles s \<le> totalFiles s \<longrightarrow>
      lookup fs dir = Some n \<longrightarrow>
      fst (getFilePaths e n dir s) = Inr ps \<longrightarrow>
      (\<forall>p\<in>set ps. \<exists>c. readFileSync fs p = Inr c) \<longrightarrow>
      (\<exists>recs. fst (loadFiles e fs dir s) = Inr recs
         \<and> map Inr recs = map (load_one e fs dir) [p \<leftarrow> ps. readFileSync fs p \<noteq> Inr []]))"
proof (intro conjI impI)
  show "parseFileContent e fs dir q [] =
     (case statSync fs q of
        Inl err \<Rightarrow> Inl err
      | Inr st \<Rightarrow>
          Inr \<lparr>filePath = replace_backslashes (path_relative e dir q), fileContent = [],
               fileTokensCount = countTokens e [], fileHash = hashFile e [],
               fileTimestamp = mtimeMs st\<rparr>)"
    by (simp add: parseFileContent_def Let_def)
next
  assume counters: "completedFiles s \<le> totalFiles s"
    and found: "lookup fs dir = Some n"
    and scanned: "fst (getFilePaths e n dir s) = Inr ps"
    and readable: "\<forall>p\<in>set ps. \<exists>c. readFileSync fs p = Inr c"
  obtain s1 where scan: "getFilePaths e n dir s = (Inr ps, s1)"
    using scanned by (cases "getFilePaths e n dir s") simp
  from scan_counters(1) [OF scan] counters
  have inv: "completedFiles s1 + length ps \<le> totalFiles s1" by simp
  have "loadFiles e fs dir s = loadLoop e fs dir ps [] s1"
    using found scan by (simp add: loadFiles_def)
  moreover from loadLoop_result [OF readable inv, of e dir "[]"]
  obtain recs where "fst (loadLoop e fs dir ps [] s1) = Inr recs"
    "map Inr recs = map (load_one e fs dir) [p \<leftarrow> ps. readFileSync fs p \<noteq> Inr []]"
    by auto
  ultimately show "\<exists>recs. fst (loadFiles e fs dir s) = Inr recs
      \<and> map Inr recs = map (load_one e fs dir) [p \<leftarrow> ps. readFileSync fs p \<noteq> Inr []]"
    by auto
qed

text \<open>The sample project: three paths scanned, two records.\<close>

theorem loadFiles_skips_empty_files_witness:
  "[p \<leftarrow> [''/proj/a.js'', ''/proj/src/empty.ts'', ''/proj/src/main.ts''].
      readFileSync sample_fs p \<noteq> Inr []] = [''/proj/a.js'', ''/proj/src/main.ts'']
   \<and> fst (loadFiles sample_env sample_fs ''/proj'' idle)
       = Inr [\<lparr>filePath = ''a.js'', fileContent = ''x'', fileTokensCount = 1,
                fileHash = ''x'', fileTimestamp = 11\<rparr>,
              \<lparr>filePath = ''src/main.ts'', fileContent = ''hello'', fileTokensCount = 5,
                fileHash = ''olleh'', fileTimestamp = 17\<rparr>]"
proof -
  let ?ps = "[''/proj/a.js'', ''/proj/src/empty.ts'', ''/proj/src/main.ts'']"
  have h1: "completedFiles idle \<le> totalFiles idle" by (simp add: idle_def)
  have h2: "lookup sample_fs ''/proj'' = Some sample_tree" by code_simp
  have h3: "fst (getFilePaths sample_env sample_tree ''/proj'' idle) = Inr ?ps" by code_simp
  have r1: "readFileSync sample_fs ''/proj/a.js'' = Inr ''x''" by code_simp
  have r2: "readFileSync sample_fs ''/proj/src/empty.ts'' = Inr []" by code_simp
  have r3: "readFileSync sample_fs ''/proj/src/main.ts'' = Inr ''hello''" by code_simp
  have h4: "\<forall>p\<in>set ?ps. \<exists>c. readFileSync sample_fs p = Inr c"
    using r1 r2 r3 by simp
  have kept: "[p \<leftarrow> ?ps. readFileSync sample_fs p \<noteq> Inr []] = [''/proj/a.js'', ''/proj/src/main.ts'']"
    using r1 r2 r3 by simp
  have l1: "load_one sample_env sample_fs ''/proj'' ''/proj/a.js''
              = Inr \<lparr>filePath = ''a.js'', fileContent = ''x'', fileTokensCount = 1,
                     fileHash = ''x'', fileTimestamp = 11\<rparr>"
    by code_simp
  have l2: "load_one sample_env sample_fs ''/proj'' ''/proj/src/main.ts''
              = Inr \<lparr>filePath = ''src/main.ts'', fileContent = ''hello'', fileTokensCount = 5,
                     fileHash = ''olleh'', fileTimestamp = 17\<rparr>"
    by code_simp
  from loadFiles_skips_empty_files
         [where e = sample_env and fs = sample_fs and dir = "''/proj''" and s = idle
            and n = sample_tree and ps = ?ps]
       h1 h2 h3 h4
  obtain recs where recs: "fst (loadFiles sample_env sample_fs ''/proj'' idle) = Inr recs"
    "map Inr recs = map (load_one sample_env sample_fs ''/proj'')
                      [p \<leftarrow> ?ps. readFileSync sample_fs p \<noteq> Inr []]"
    by blast
  from recs(2) have "recs = [\<lparr>filePath = ''a.js'', fileContent = ''x'', fileTokensCount = 1,
                fileHash = ''x'', fileTimestamp = 11\<rparr>,
              \<lparr>filePath = ''src/main.ts'', fileContent = ''hello'', fileTokensCount = 5,
                fileHash = ''olleh'', fileTimestamp = 17\<rparr>]"
    unfolding kept by (auto simp: l1 l2)
  with recs(1) kept show ?thesis by simp
qed

text \<open>
  C10: when every file whose \<^verbatim>\<open>exists\<close> flag is truthy can be read, \<open>getFiles\<close> returns a list
  as long as its input, element by element the object it was given with \<^verbatim>\<open>code\<close> set: to
  the content read at \<^verbatim>\<open>codeBaseDirectory\<close> joined with its \<^verbatim>\<open>filePath\<close> when \<^verbatim>\<open>exists\<close> is
  truthy, and to the placeholder otherwise. The paths handed to \<^verbatim>\<open>readFileSync\<close> are those
  of the truthy elements and no other.
\<close>

theorem getFiles_shape:
  assumes "\<forall>f\<in>set files. truthy (exists f) \<longrightarrow>
             (\<exists>c. readFileSync fs (posix_join base (filePath f)) = Inr c)"
  shows "\<exists>out. getFiles fs base files =
                 (Inr out, [posix_join base (filePath f). f \<leftarrow> files, truthy (exists f)])
           \<and> length out = length files
           \<and> (\<forall>i<length files.
                 filePath (out ! i) = filePath (files ! i)
                 \<and> exists (out ! i) = exists (files ! i)
                 \<and> (if truthy (exists (files ! i))
                    then \<exists>c. readFileSync fs (posix_join base (filePath (files ! i))) = Inr c
                             \<and> code (out ! i) = Some c
                    else code (out ! i) = Some ''// This is a new file''))"
proof -
  have run: "getFiles fs base files =
      (Inr (map (with_code fs base) files),
       [posix_join base (filePath f). f \<leftarrow> files, truthy (exists f)])"
    using getFilesLoop_result [OF assms, of "[]" "[]"] by (simp add: getFiles_def)
  have each: "filePath (with_code fs base f) = filePath f
      \<and> exists (with_code fs base f) = exists f
      \<and> (if truthy (exists f)
         then \<exists>c. readFileSync fs (posix_join base (filePath f)) = Inr c
                  \<and> code (with_code fs base f) = Some c
         else code (with_code fs base f) = Some ''// This is a new file'')"
    if "f \<in> set files" for f
    using that assms by (auto simp: with_code_def)
  show ?thesis
    using run each by (intro exI [of _ "map (with_code fs base) files"]) simp
qed

text \<open>One object of each kind, on the sample project; the only read is that of \<^verbatim>\<open>main.ts\<close>.\<close>

theorem getFiles_shape_witness:
  "getFiles sample_fs ''/proj'' sample_objects =
     (Inr [\<lparr>filePath = ''src/main.ts'', exists = JBool True, code = Some ''hello''\<rparr>,
           \<lparr>filePath = ''lib/new.js'', exists = JUndefined,
            code = Some ''// This is a new file''\<rparr>],
      [''/proj/src/main.ts''])"
proof -
  have r: "readFileSync sample_fs ''/proj/src/main.ts'' = Inr ''hello''" by code_simp
  have j: "posix_join ''/proj'' ''src/main.ts'' = ''/proj/src/main.ts''" by code_simp
  have h: "\<forall>f\<in>set sample_objects. truthy (exists f) \<longrightarrow>
             (\<exists>c. readFileSync sample_fs (posix_join ''/proj'' (filePath f)) = Inr c)"
    using r j by (simp add: sample_objects_def)
  from getFiles_shape [OF h]
  obtain out where out: "getFiles sample_fs ''/proj'' sample_objects =
        (Inr out, [posix_join ''/proj'' (filePath f). f \<leftarrow> sample_objects, truthy (exists f)])"
    by blast
  have "getFiles sample_fs ''/proj'' sample_objects =
     (Inr [\<lparr>filePath = ''src/main.ts'', exists = JBool True, code = Some ''hello''\<rparr>,
           \<lparr>filePath = ''lib/new.js'', exists = JUndefined,
            code = Some ''// This is a new file''\<rparr>],
      [''/proj/src/main.ts''])"
    by code_simp
  with out show ?thesis by simp
qed

text \<open>
  Away from backslashes \<open>parseFileContent\<close> does what its comment says: on a POSIX host,
  for every root directory \<open>dir\<close> (absolute or relative to the working directory,
  normalised or not) and every file reached beneath it through names without a
  backslash, the \<^verbatim>\<open>filePath\<close> of the record is these names joined by forward slashes.
\<close>

lemma relative_path_of_plain_names:
  assumes "path_relative e = posix_relative cwd"
    and "\<forall>n\<in>set names. entry_name n \<and> backslash \<notin> set n"
    and "statSync fs (beneath dir names) = Inr st"
  shows "\<exists>r. parseFileContent e fs dir (beneath dir names) content = Inr r
             \<and> filePath r = unsegments names"
proof -
  have names: "\<forall>n\<in>set names. entry_name n" using assms(2) by blast
  have "set (unsegments names) \<subseteq> insert (CHR ''/'') (\<Union> (set ` set names))"
    by (rule unsegments_set)
  moreover have "backslash \<noteq> CHR ''/''" by (simp add: backslash_def)
  ultimately have clean: "backslash \<notin> set (unsegments names)"
    using assms(2) by auto
  have "replace_backslashes (path_relative e dir (beneath dir names)) = unsegments names"
    using relative_beneath [OF names, of cwd dir] clean
    by (simp add: assms(1) replace_backslashes_same)
  then show ?thesis
    using parse_after_stat [OF assms(3), of e dir content] by simp
qed

text \<open>
  C7, at the failing input: a POSIX host and the project \<open>odd_fs\<close>, whose root \<^verbatim>\<open>/proj\<close> holds
  a file named \<open>odd_name\<close> (\<^verbatim>\<open>a\<close>, a backslash, \<^verbatim>\<open>b.js\<close>) and a directory \<^verbatim>\<open>a\<close> with the file
  \<^verbatim>\<open>b.js\<close>. The relative path from the root to the first file is its name; the record that
  \<open>parseFileContent\<close> returns for it has the \<^verbatim>\<open>filePath\<close> \<^verbatim>\<open>a/b.js\<close> instead, the relative path
  of the other file, and \<open>loadFiles\<close> returns two records under that one path.
\<close>

theorem parseFileContent_rewrites_backslash_name:
  "entry_name odd_name
   \<and> unsegments [odd_name] \<noteq> ''a/b.js''
   \<and> parseFileContent sample_env odd_fs ''/proj'' (beneath ''/proj'' [odd_name]) ''x''
       = Inr \<lparr>filePath = ''a/b.js'', fileContent = ''x'', fileTokensCount = 1,
               fileHash = ''x'', fileTimestamp = 11\<rparr>
   \<and> fst (loadFiles sample_env odd_fs ''/proj'' idle)
       = Inr [\<lparr>filePath = ''a/b.js'', fileContent = ''x'', fileTokensCount = 1,
                fileHash = ''x'', fileTimestamp = 11\<rparr>,
              \<lparr>filePath = ''a/b.js'', fileContent = ''y'', fileTokensCount = 1,
                fileHash = ''y'', fileTimestamp = 13\<rparr>]"
  by code_simp

section \<open>Properties of \<^verbatim>\<open>db.js\<close>\<close>

lemma rows_upsert_ok:
  "rows (snd (insertOrUpdateFile e None created None dir file summ deps db)) =
     (rows db)(getDBFilePath e dir :=
        insert_or_replace
          \<lparr>path = filePath file, hash = fileHash file, timestamp = fileTimestamp file,
           tokensCount = fileTokensCount file, summary = summ,
           summaryTokensCount = countTokens e summ, dependenciesLibs = deps\<rparr>
          (rows db (getDBFilePath e dir)))"
  by (simp add: insertOrUpdateFile_def getDB_def createFilesTable_def Let_def)

lemma rows_upsert_failed:
  "rows (snd (insertOrUpdateFile e opened created (Some err) dir file summ deps db)) = rows db"
  by (simp add: insertOrUpdateFile_def getDB_def createFilesTable_def Let_def
           split: option.splits)

lemma rows_upsert_unopened:
  "rows (snd (insertOrUpdateFile e (Some err) created outcome dir file summ deps db)) = rows db"
  by (simp add: insertOrUpdateFile_def getDB_def createFilesTable_def Let_def)

lemma upsert_returns:
  "fst (insertOrUpdateFile e opened created outcome dir file summ deps db) = Inr ()"
  by (simp add: insertOrUpdateFile_def getDB_def Let_def split: option.splits)

lemma upsert_printed:
  "drop (length (console db))
     (console (snd (insertOrUpdateFile e opened created outcome dir file summ deps db))) =
   Connected (getDBFilePath e dir) #
     (case opened of
        Some oerr \<Rightarrow> []
      | None \<Rightarrow>
          [case created of None \<Rightarrow> TableCreated | Some m \<Rightarrow> TableError m,
           case outcome of None \<Rightarrow> FileUpserted (filePath file) | Some err \<Rightarrow> UpsertError err])"
  by (simp add: insertOrUpdateFile_def getDB_def createFilesTable_def Let_def
           split: option.splits)

text \<open>
  C4, as stated: if the statement behind \<^verbatim>\<open>insertOrUpdateFile\<close> fails, the caller gets an
  error result. It does not: with the \<^verbatim>\<open>INSERT\<close> failing on a full disk the call returns
  as it does on success.
\<close>

theorem insertOrUpdateFile_failure_counterexample:
  "fst (insertOrUpdateFile sample_env None None (Some ''SQLITE_FULL'') ''/proj'' sample_file
          ''one file'' ''[]'' empty_db) = Inr ()"
  by (simp add: insertOrUpdateFile_def getDB_def Let_def split: prod.splits)

text \<open>
  C4, amended: \<^verbatim>\<open>insertOrUpdateFile\<close> gives its caller no error result. Whether the upsert
  succeeds, its \<^verbatim>\<open>INSERT\<close> fails or the database cannot be opened, the call returns normally,
  with what it returns on success. A failed upsert is never reported as success: the
  success line for the file is printed if and only if the database opened and the
  \<^verbatim>\<open>INSERT\<close> was carried out, and in every other case the table is left as it was. When the
  \<^verbatim>\<open>INSERT\<close> fails on a database that opened, what the call prints ends with the line
  \<^verbatim>\<open>Error inserting/updating file:\<close> and the error, on \<^verbatim>\<open>console.error\<close>.
\<close>

theorem insertOrUpdateFile_failure_not_surfaced:
  "(let r = insertOrUpdateFile e opened created outcome dir file summ deps db;
        printed = drop (length (console db)) (console (snd r))
    in fst r = Inr ()
       \<and> fst r = fst (insertOrUpdateFile e None created None dir file summ deps db)
       \<and> (FileUpserted (filePath file) \<in> set printed \<longleftrightarrow> opened = None \<and> outcome = None)
       \<and> (opened = None \<and> outcome = None \<or> rows (snd r) = rows db)
       \<and> (opened = None \<longrightarrow> outcome = Some err \<longrightarrow>
            printed = [Connected (getDBFilePath e dir),
                       case created of None \<Rightarrow> TableCreated | Some m \<Rightarrow> TableError m,
                       UpsertError err]
            \<and> on_console_error (UpsertError err)))"
proof -
  let ?r = "insertOrUpdateFile e opened created outcome dir file summ deps db"
  let ?printed = "drop (length (console db)) (console (snd ?r))"
  have ret: "fst ?r = Inr ()"
    and same: "fst ?r = fst (insertOrUpdateFile e None created None dir file summ deps db)"
    by (simp_all add: upsert_returns)
  have line: "FileUpserted (filePath file) \<in> set ?printed \<longleftrightarrow> opened = None \<and> outcome = None"
    by (auto simp: upsert_printed split: option.splits)
  have table: "opened = None \<and> outcome = None \<or> rows (snd ?r) = rows db"
  proof (cases opened)
    case (Some oerr)
    then show ?thesis by (simp add: rows_upsert_unopened)
  next
    case None
    then show ?thesis by (cases outcome) (simp_all add: rows_upsert_failed)
  qed
  have logged: "?printed = [Connected (getDBFilePath e dir),
                       case created of None \<Rightarrow> TableCreated | Some m \<Rightarrow> TableError m,
                       UpsertError err]
            \<and> on_console_error (UpsertError err)"
    if "opened = None" "outcome = Some err"
    using that by (simp add: upsert_printed)
  from ret same line table logged show ?thesis
    unfolding Let_def by blast
qed

text \<open>A full disk under the sample project: the table stays empty, the error is printed.\<close>

theorem insertOrUpdateFile_failure_not_surfaced_witness:
  "fst (insertOrUpdateFile sample_env None None (Some ''SQLITE_FULL'') ''/proj'' sample_file
          ''one file'' ''[]'' empty_db) = Inr ()
   \<and> console (snd (insertOrUpdateFile sample_env None None (Some ''SQLITE_FULL'') ''/proj''
                      sample_file ''one file'' ''[]'' empty_db))
       = [Connected ''/proj/.autopilot/autopilot.db'', TableCreated, UpsertError ''SQLITE_FULL'']
   \<and> rows (snd (insertOrUpdateFile sample_env None None (Some ''SQLITE_FULL'') ''/proj''
                   sample_file ''one file'' ''[]'' empty_db))
       = rows empty_db"
proof -
  have path: "getDBFilePath sample_env ''/proj'' = ''/proj/.autopilot/autopilot.db''"
    by code_simp
  from insertOrUpdateFile_failure_not_surfaced
         [of sample_env None None "Some ''SQLITE_FULL''" "''/proj''" sample_file
             "''one file''" "''[]''" empty_db "''SQLITE_FULL''"]
  show ?thesis
    unfolding Let_def by (simp add: path empty_db_def)
qed

text \<open>
  C6: a successful \<^verbatim>\<open>insertOrUpdateFile\<close> leaves exactly one row at the file's path, and
  every column of that row comes from the arguments of the call (none from the row that
  was there); the rows at other paths are untouched; and a second call with the same
  arguments leaves the table as the first call left it.
\<close>

theorem insertOrUpdateFile_full_row_idempotent:
  "(let f = getDBFilePath e dir;
        row = \<lparr>path = filePath file, hash = fileHash file, timestamp = fileTimestamp file,
               tokensCount = fileTokensCount file, summary = summ,
               summaryTokensCount = countTokens e summ, dependenciesLibs = deps\<rparr>;
        db1 = snd (insertOrUpdateFile e None created None dir file summ deps db);
        db2 = snd (insertOrUpdateFile e None created' None dir file summ deps db1)
    in filter (\<lambda>r. path r = filePath file) (rows db1 f) = [row]
       \<and> filter (\<lambda>r. path r \<noteq> filePath file) (rows db1 f)
           = filter (\<lambda>r. path r \<noteq> filePath file) (rows db f)
       \<and> rows db2 = rows db1)"
  by (simp add: Let_def rows_upsert_ok insert_or_replace_def)

text \<open>
  C9: \<^verbatim>\<open>insertOrUpdateFile\<close> keeps \<^verbatim>\<open>summaryTokensCount\<close> equal to \<^verbatim>\<open>countTokens\<close> of the \<^verbatim>\<open>summary\<close> in
  the same row. After a successful call the table holds a row at the file's path, and
  every row at that path holds the summary of the call together with its token count.
  And whatever the outcome of the open and of the statements: if the two columns agree in
  every row of a table before the call, they agree in every row after it.
\<close>

theorem insertOrUpdateFile_token_coupling:
  "(let db' = snd (insertOrUpdateFile e opened created outcome dir file summ deps db)
    in (opened = None \<and> outcome = None \<longrightarrow>
          (\<exists>r\<in>set (rows db' (getDBFilePath e dir)). path r = filePath file)
          \<and> (\<forall>r\<in>set (rows db' (getDBFilePath e dir)).
                path r = filePath file \<longrightarrow>
                  summary r = summ \<and> summaryTokensCount r = countTokens e (summary r)))
       \<and> ((\<forall>r\<in>set (rows db f). summaryTokensCount r = countTokens e (summary r)) \<longrightarrow>
          (\<forall>r\<in>set (rows db' f). summaryTokensCount r = countTokens e (summary r))))"
proof (cases opened)
  case unopened: (Some oerr)
  then show ?thesis
    by (simp add: Let_def rows_upsert_unopened)
next
  case None
  show ?thesis
  proof (cases outcome)
    case inserted: None
    with None show ?thesis
      by (auto simp: Let_def rows_upsert_ok insert_or_replace_def)
  next
    case (Some err)
    with None show ?thesis
      by (simp add: Let_def rows_upsert_failed)
  qed
qed

text \<open>
  The coupling at work: a second upsert of \<^verbatim>\<open>a.js\<close> with a new summary, on the table the
  first one left.
\<close>

theorem insertOrUpdateFile_token_coupling_witness:
  "list_all (\<lambda>r. summaryTokensCount r = length (summary r))
     (rows (snd (insertOrUpdateFile sample_env None None None ''/proj'' sample_file ''one file''
                   ''[]''
               (snd (insertOrUpdateFile sample_env None None None ''/proj'' sample_file ''a''
                       ''[]'' empty_db))))
        ''/proj/.autopilot/autopilot.db'')"
proof -
  let ?db = "snd (insertOrUpdateFile sample_env None None None ''/proj'' sample_file ''a'' ''[]''
                    empty_db)"
  have h: "\<forall>r\<in>set (rows ?db ''/proj/.autopilot/autopilot.db'').
             summaryTokensCount r = countTokens sample_env (summary r)"
    by (simp add: rows_upsert_ok insert_or_replace_def sample_env_def empty_db_def)
  from insertOrUpdateFile_token_coupling
         [of sample_env None None None "''/proj''" sample_file "''one file''" "''[]''" ?db
             "''/proj/.autopilot/autopilot.db''"] h
  have "\<forall>r\<in>set (rows (snd (insertOrUpdateFile sample_env None None None ''/proj'' sample_file
                                ''one file'' ''[]'' ?db)) ''/proj/.autopilot/autopilot.db'').
          summaryTokensCount r = countTokens sample_env (summary r)"
    unfolding Let_def by blast
  then show ?thesis
    by (simp add: list_all_iff sample_env_def)
qed

section \<open>Properties of the Reconciler\<close>

lemma stored_hash_None: "stored_hash manifest p = None \<longleftrightarrow> p \<notin> path ` set manifest"
  by (simp add: stored_hash_def map_of_eq_None_iff image_image)

text \<open>
  C1: for a live set whose records have pairwise distinct paths (the path is the record's
  identity) and any manifest projection, the four classes together hold exactly the paths
  of the live set and of the manifest, every such path is in exactly one class, and the
  classes are pairwise disjoint.
\<close>

theorem reconcile_partition:
  assumes "distinct (map filePath live)"
  shows "(let c = reconcile live manifest
          in set (added c) \<union> set (modified c) \<union> set (unchanged c) \<union> set (removed c)
               = filePath ` set live \<union> path ` set manifest
             \<and> (\<forall>p \<in> filePath ` set live \<union> path ` set manifest. classes_of c p = 1)
             \<and> set (added c) \<inter> set (modified c) = {}
             \<and> set (added c) \<inter> set (unchanged c) = {}
             \<and> set (added c) \<inter> set (removed c) = {}
             \<and> set (modified c) \<inter> set (unchanged c) = {}
             \<and> set (modified c) \<inter> set (removed c) = {}
             \<and> set (unchanged c) \<inter> set (removed c) = {})"
proof -
  have uniq: "\<And>f g. f \<in> set live \<Longrightarrow> g \<in> set live \<Longrightarrow> filePath f = filePath g \<Longrightarrow> f = g"
    using assms by (meson distinct_map inj_onD)
  let ?c = "reconcile live manifest"
  have A: "set (added ?c) = {filePath f |f. f \<in> set live \<and> filePath f \<notin> path ` set manifest}"
    by (auto simp: reconcile_def stored_hash_None)
  have M: "set (modified ?c) = {filePath f |f. f \<in> set live \<and>
             (\<exists>h. stored_hash manifest (filePath f) = Some h \<and> h \<noteq> fileHash f)}"
    by (auto simp: reconcile_def split: option.splits)
  have U: "set (unchanged ?c) = {filePath f |f. f \<in> set live \<and>
             stored_hash manifest (filePath f) = Some (fileHash f)}"
    by (auto simp: reconcile_def split: option.splits)
  have R: "set (removed ?c) = {p. p \<in> path ` set manifest \<and> p \<notin> filePath ` set live}"
    by (auto simp: reconcile_def)
  have some: "\<And>p. p \<in> path ` set manifest \<Longrightarrow> \<exists>h. stored_hash manifest p = Some h"
    using stored_hash_None by (metis not_None_eq)
  have none: "\<And>p h. stored_hash manifest p = Some h \<Longrightarrow> p \<in> path ` set manifest"
    using stored_hash_None by (metis option.distinct(1))
  have AM: "set (added ?c) \<inter> set (modified ?c) = {}"
    unfolding A M using none by auto
  have AU: "set (added ?c) \<inter> set (unchanged ?c) = {}"
    unfolding A U using none by auto
  have AR: "set (added ?c) \<inter> set (removed ?c) = {}"
    unfolding A R by auto
  have MU: "set (modified ?c) \<inter> set (unchanged ?c) = {}"
  proof -
    have False if "p \<in> set (modified ?c)" "p \<in> set (unchanged ?c)" for p
    proof -
      from that(1) obtain f h where f: "f \<in> set live" "p = filePath f"
        "stored_hash manifest (filePath f) = Some h" "h \<noteq> fileHash f"
        unfolding M by blast
      from that(2) obtain g where g: "g \<in> set live" "p = filePath g"
        "stored_hash manifest (filePath g) = Some (fileHash g)"
        unfolding U by blast
      from f(1,2) g(1,2) have "f = g" by (intro uniq) simp_all
      with f g show False by simp
    qed
    then show ?thesis by blast
  qed
  have MR: "set (modified ?c) \<inter> set (removed ?c) = {}"
    unfolding M R by auto
  have UR: "set (unchanged ?c) \<inter> set (removed ?c) = {}"
    unfolding U R by auto
  have cover: "set (added ?c) \<union> set (modified ?c) \<union> set (unchanged ?c) \<union> set (removed ?c)
               = filePath ` set live \<union> path ` set manifest"
  proof (intro set_eqI iffI)
    fix p
    assume "p \<in> set (added ?c) \<union> set (modified ?c) \<union> set (unchanged ?c) \<union> set (removed ?c)"
    then show "p \<in> filePath ` set live \<union> path ` set manifest"
      unfolding A M U R by blast
  next
    fix p
    assume p: "p \<in> filePath ` set live \<union> path ` set manifest"
    show "p \<in> set (added ?c) \<union> set (modified ?c) \<union> set (unchanged ?c) \<union> set (removed ?c)"
    proof (cases "p \<in> filePath ` set live")
      case False
      with p show ?thesis unfolding R by blast
    next
      case True
      then obtain f where f: "f \<in> set live" "p = filePath f" by blast
      show ?thesis
      proof (cases "stored_hash manifest p")
        case None
        then have "p \<notin> path ` set manifest" by (simp add: stored_hash_None)
        with f show ?thesis unfolding A by blast
      next
        case (Some h)
        show ?thesis
        proof (cases "h = fileHash f")
          case True
          with Some f show ?thesis unfolding U by blast
        next
          case False
          with Some f show ?thesis unfolding M by blast
        qed
      qed
    qed
  qed
  have one: "classes_of ?c p = 1" if "p \<in> filePath ` set live \<union> path ` set manifest" for p
  proof -
    from that cover have "p \<in> set (added ?c) \<or> p \<in> set (modified ?c)
        \<or> p \<in> set (unchanged ?c) \<or> p \<in> set (removed ?c)" by blast
    with AM AU AR MU MR UR show ?thesis
      unfolding classes_of_def disjoint_iff by (simp; blast)
  qed
  show ?thesis
    unfolding Let_def using cover one AM AU AR MU MR UR by blast
qed


text \<open>
  One path of each class: \<^verbatim>\<open>a.js\<close> changed, \<^verbatim>\<open>b.js\<close> only touched, \<^verbatim>\<open>c.js\<close> new, \<^verbatim>\<open>gone.js\<close>
  deleted.
\<close>

theorem reconcile_partition_witness:
  "distinct (map filePath sample_live)
   \<and> reconcile sample_live sample_manifest
       = \<lparr>added = [''c.js''], modified = [''a.js''], unchanged = [''b.js''],
          removed = [''gone.js'']\<rparr>
   \<and> classes_of (reconcile sample_live sample_manifest) ''a.js'' = 1
   \<and> classes_of (reconcile sample_live sample_manifest) ''gone.js'' = 1"
proof -
  have h: "distinct (map filePath sample_live)"
    by (simp add: sample_live_def)
  have v: "reconcile sample_live sample_manifest
       = \<lparr>added = [''c.js''], modified = [''a.js''], unchanged = [''b.js''],
          removed = [''gone.js'']\<rparr>"
    by code_simp
  have a: "''a.js'' \<in> filePath ` set sample_live \<union> path ` set sample_manifest"
    by (simp add: sample_live_def)
  have g: "''gone.js'' \<in> filePath ` set sample_live \<union> path ` set sample_manifest"
    by (simp add: sample_manifest_def)
  from reconcile_partition [OF h, of sample_manifest]
  have "\<forall>p \<in> filePath ` set sample_live \<union> path ` set sample_manifest.
          classes_of (reconcile sample_live sample_manifest) p = 1"
    by (simp add: Let_def)
  with a g h v show ?thesis by blast
qed

end
